theory Spec2Isabelle
  imports Complex_Main "HOL-Library.Word"
begin

section \<open>JavaScript values\<close>

text \<open>
  A JavaScript argument that may be missing: \<open>undefined\<close>, \<open>null\<close>, or a value.
\<close>

datatype 'a nullable = Undefined | Null | Val 'a

text \<open>
  A JavaScript number: \<open>NaN\<close>, the two infinities, or a finite value, which is a real
  (a double is one of them). The sign of zero is outside this model.
\<close>

datatype jsnum = NaN | PosInf | NegInf | Fin real

fun js_lt :: "jsnum \<Rightarrow> jsnum \<Rightarrow> bool" where
  "js_lt NaN _ = False"
| "js_lt _ NaN = False"
| "js_lt (Fin a) (Fin b) = (a < b)"
| "js_lt _ NegInf = False"
| "js_lt NegInf _ = True"
| "js_lt PosInf _ = False"
| "js_lt (Fin a) PosInf = True"

definition js_gt :: "jsnum \<Rightarrow> jsnum \<Rightarrow> bool" where
  "js_gt x y = js_lt y x"

definition js_le :: "jsnum \<Rightarrow> jsnum \<Rightarrow> bool" where
  "js_le x y = (js_lt x y \<or> (x = y \<and> x \<noteq> NaN))"

fun isFinite :: "jsnum \<Rightarrow> bool" where
  "isFinite (Fin _) = True"
| "isFinite _ = False"

text \<open>
  Division and multiplication of doubles. On finite operands the result is the double
  that IEEE 754 assigns to the exact quotient or product: it may be rounded, it may
  overflow to an infinity and it may underflow to zero. That rounding belongs to the
  platform: it is the parameter \<open>rnd\<close>, from the exact real result to the number the
  operation returns. The cases with \<open>NaN\<close>, an infinity or a zero divisor do not round.
\<close>

fun js_div :: "(real \<Rightarrow> jsnum) \<Rightarrow> jsnum \<Rightarrow> jsnum \<Rightarrow> jsnum" where
  "js_div rnd NaN _ = NaN"
| "js_div rnd _ NaN = NaN"
| "js_div rnd (Fin a) (Fin b) =
     (if b = 0 then (if a = 0 then NaN else if 0 < a then PosInf else NegInf)
      else rnd (a / b))"
| "js_div rnd (Fin a) _ = Fin 0"
| "js_div rnd PosInf (Fin b) = (if 0 \<le> b then PosInf else NegInf)"
| "js_div rnd NegInf (Fin b) = (if 0 \<le> b then NegInf else PosInf)"
| "js_div rnd _ _ = NaN"

fun js_mul :: "(real \<Rightarrow> jsnum) \<Rightarrow> jsnum \<Rightarrow> jsnum \<Rightarrow> jsnum" where
  "js_mul rnd NaN _ = NaN"
| "js_mul rnd _ NaN = NaN"
| "js_mul rnd (Fin a) (Fin b) = rnd (a * b)"
| "js_mul rnd (Fin a) PosInf = (if a = 0 then NaN else if 0 < a then PosInf else NegInf)"
| "js_mul rnd (Fin a) NegInf = (if a = 0 then NaN else if 0 < a then NegInf else PosInf)"
| "js_mul rnd PosInf (Fin b) = (if b = 0 then NaN else if 0 < b then PosInf else NegInf)"
| "js_mul rnd NegInf (Fin b) = (if b = 0 then NaN else if 0 < b then NegInf else PosInf)"
| "js_mul rnd PosInf PosInf = PosInf"
| "js_mul rnd NegInf NegInf = PosInf"
| "js_mul rnd PosInf NegInf = NegInf"
| "js_mul rnd NegInf PosInf = NegInf"

text \<open>
  A property of every rounding mode of IEEE 754: a real that is not negative rounds to a
  double that is not negative, or overflows to \<open>+Infinity\<close>.
\<close>

definition keepsSign :: "(real \<Rightarrow> jsnum) \<Rightarrow> bool" where
  "keepsSign rnd =
     (\<forall>x. 0 \<le> x \<longrightarrow> (case rnd x of Fin y \<Rightarrow> 0 \<le> y | PosInf \<Rightarrow> True | _ \<Rightarrow> False))"

text \<open>
  A rounding to run the functions with. It agrees with the rounding to nearest of IEEE 754
  on every real that is a double, on every real of magnitude \<open>2^1024\<close> or more (overflow)
  and on every real of magnitude \<open>2^-1075\<close> or less (underflow to zero); it is only run
  on such reals.
\<close>

definition sampleRound :: "real \<Rightarrow> jsnum" where
  "sampleRound x =
     (if 2 ^ 1024 \<le> \<bar>x\<bar> then (if 0 < x then PosInf else NegInf)
      else if \<bar>x\<bar> \<le> 1 / 2 ^ 1075 then Fin 0
      else Fin x)"

text \<open>
  Strings are lists of characters, one per code unit. The functions below only compare
  characters with ASCII ones, so the 8-bit \<open>char\<close> of HOL is enough.
\<close>

definition startsWith :: "string \<Rightarrow> string \<Rightarrow> bool" where
  "startsWith s p = (take (length p) s = p)"

definition endsWith :: "string \<Rightarrow> string \<Rightarrow> bool" where
  "endsWith s p = (length p \<le> length s \<and> drop (length s - length p) s = p)"

text \<open>The character class \<open>\d\<close> of a regular expression without the unicode flag.\<close>

definition isDigit :: "char \<Rightarrow> bool" where
  "isDigit c = (c \<in> set ''0123456789'')"

text \<open>\<open>/^\d+$/.test(s)\<close>: one digit or more, and nothing else.\<close>

definition allDigits :: "string \<Rightarrow> bool" where
  "allDigits s = (s \<noteq> [] \<and> list_all isDigit s)"

section \<open>open-sse/utils/throughputCalc.js\<close>

text \<open>
  Lines 29--31, \<open>const durationMs = outputDurationMs !== undefined && outputDurationMs !== null
  && outputDurationMs > 0 ? outputDurationMs : latencyMs\<close>.
\<close>

definition durationMs :: "jsnum \<Rightarrow> jsnum nullable \<Rightarrow> jsnum" where
  "durationMs latencyMs outputDurationMs =
     (case outputDurationMs of
        Undefined \<Rightarrow> latencyMs
      | Null \<Rightarrow> latencyMs
      | Val d \<Rightarrow> if js_gt d (Fin 0) then d else latencyMs)"

text \<open>
  \<open>calculateThroughput(completionTokens, latencyMs, outputDurationMs)\<close>, lines 15--48:
  the result is \<open>None\<close> for JavaScript's \<open>null\<close>. \<open>rnd\<close> is the rounding of the
  division and of the multiplication of line 40.
\<close>

definition calculateThroughput ::
  "(real \<Rightarrow> jsnum) \<Rightarrow> jsnum nullable \<Rightarrow> jsnum nullable \<Rightarrow> jsnum nullable \<Rightarrow> jsnum option" where
  "calculateThroughput rnd completionTokens latencyMs outputDurationMs =
     (case completionTokens of
        Undefined \<Rightarrow> None
      | Null \<Rightarrow> None
      | Val t \<Rightarrow>
          if js_le t (Fin 0) then None
          else
            (case latencyMs of
               Undefined \<Rightarrow> None
             | Null \<Rightarrow> None
             | Val l \<Rightarrow>
                 if js_le l (Fin 0) then None
                 else
                   let d = durationMs l outputDurationMs
                   in if js_le d (Fin 0) then None
                      else
                        let throughput = js_mul rnd (js_div rnd t d) (Fin 1000)
                        in if \<not> isFinite throughput \<or> js_lt throughput (Fin 0) then None
                           else Some throughput))"

text \<open>
  The function as the specification words it: the unknown result when the effective
  duration or the token count is at most zero, and otherwise the tokens divided by the
  duration in seconds. The effective duration is the one of lines 29--31.
\<close>

definition claimed_calculateThroughput ::
  "(real \<Rightarrow> jsnum) \<Rightarrow> jsnum \<Rightarrow> jsnum \<Rightarrow> jsnum nullable \<Rightarrow> jsnum option" where
  "claimed_calculateThroughput rnd completionTokens latencyMs outputDurationMs =
     (let d = durationMs latencyMs outputDurationMs
      in if js_le d (Fin 0) \<or> js_le completionTokens (Fin 0) then None
         else Some (js_div rnd completionTokens (js_div rnd d (Fin 1000))))"

section \<open>src/lib/oauth/utils/redirectUri.js\<close>

text \<open>
  The fields of a \<open>URL\<close> object that the function reads. The constructor \<open>new URL(s)\<close>
  belongs to the platform: it is the parameter \<open>parseURL\<close>, which gives \<open>None\<close> where
  the constructor throws.
\<close>

record url =
  url_pathname :: string
  url_origin :: string
  url_hostname :: string
  url_port :: string

text \<open>
  \<open>getAllowedRedirectUri(origin, requestedRedirectUri)\<close>; \<open>None\<close> is \<open>null\<close>. The
  \<open>catch\<close> covers the whole \<open>try\<close> block, where only the constructor can throw.
\<close>

definition getAllowedRedirectUri ::
  "(string \<Rightarrow> url option) \<Rightarrow> string \<Rightarrow> string nullable \<Rightarrow> string option" where
  "getAllowedRedirectUri parseURL origin requestedRedirectUri =
     (let defaultCallback = origin @ ''/callback''
      in case requestedRedirectUri of
           Undefined \<Rightarrow> Some defaultCallback
         | Null \<Rightarrow> Some defaultCallback
         | Val s \<Rightarrow>
             if s = [] then Some defaultCallback
             else
               (case parseURL s of
                  None \<Rightarrow> None
                | Some u \<Rightarrow>
                    if url_pathname u \<noteq> ''/callback'' \<and> \<not> endsWith (url_pathname u) ''/callback''
                    then None
                    else
                      let sameOrigin = (url_origin u = origin);
                          localCallback =
                            ((url_hostname u = ''localhost'' \<or> url_hostname u = ''127.0.0.1'')
                             \<and> (url_port u = [] \<or> allDigits (url_port u)))
                      in if sameOrigin \<or> localCallback then Some s else None))"

text \<open>
  A parser that knows three URLs of the test cases of the repository, for running the
  function on them:
  a local callback on another port, an external callback and a local page that is no
  callback.
\<close>

definition testURL :: "string \<Rightarrow> url option" where
  "testURL s =
     (if s = ''http://localhost:8080/callback'' then
        Some \<lparr>url_pathname = ''/callback'', url_origin = ''http://localhost:8080'',
              url_hostname = ''localhost'', url_port = ''8080''\<rparr>
      else if s = ''https://evil.com/callback'' then
        Some \<lparr>url_pathname = ''/callback'', url_origin = ''https://evil.com'',
              url_hostname = ''evil.com'', url_port = []\<rparr>
      else if s = ''http://localhost:20128/dashboard'' then
        Some \<lparr>url_pathname = ''/dashboard'', url_origin = ''http://localhost:20128'',
              url_hostname = ''localhost'', url_port = ''20128''\<rparr>
      else None)"

section \<open>cloud/src/utils/apiKey.js\<close>

text \<open>
  The API key utilities of the Worker (among the sources as \<open>unnamed/part_001\<close>). The
  functions are asynchronous; the model gives the value their promise resolves to.
\<close>

definition LEGACY_API_KEY_SECRET :: string where
  "LEGACY_API_KEY_SECRET = ''endpoint-proxy-api-key-secret''"

text \<open>
  \<open>String.prototype.trim\<close> removes white space and line terminators from both ends.
  Among the first 256 code units these are tab, line feed, vertical tab, form feed,
  carriage return, space and the no-break space.
\<close>

definition isWhiteSpace :: "char \<Rightarrow> bool" where
  "isWhiteSpace c = (of_char c \<in> {9, 10, 11, 12, 13, 32, 160 :: nat})"

definition trim :: "string \<Rightarrow> string" where
  "trim s = rev (dropWhile isWhiteSpace (rev (dropWhile isWhiteSpace s)))"

text \<open>
  \<open>apiKey.split("-")\<close>: the pieces between the separators, in order; a string without
  the separator is its only piece. The result is never empty, so the first branch of the
  inner distinction is never taken.
\<close>

fun split :: "char \<Rightarrow> string \<Rightarrow> string list" where
  "split sep [] = [[]]"
| "split sep (c # cs) =
     (if c = sep then [] # split sep cs
      else (case split sep cs of [] \<Rightarrow> [[c]] | p # ps \<Rightarrow> (c # p) # ps))"

text \<open>\<open>b.toString(16).padStart(2, "0")\<close> for a byte \<open>b\<close>.\<close>

definition hexDigit :: "nat \<Rightarrow> char" where
  "hexDigit d = ''0123456789abcdef'' ! d"

fun toString16 :: "nat \<Rightarrow> string" where
  "toString16 n = (if n < 16 then [hexDigit n] else toString16 (n div 16) @ [hexDigit (n mod 16)])"

definition padStart :: "nat \<Rightarrow> char \<Rightarrow> string \<Rightarrow> string" where
  "padStart n c s = replicate (n - length s) c @ s"

definition hashHex :: "8 word list \<Rightarrow> string" where
  "hashHex hashArray = concat (map (\<lambda>b. padStart 2 CHR ''0'' (toString16 (unat b))) hashArray)"

text \<open>
  Line 20, \<open>(secret && secret.trim()) || LEGACY_API_KEY_SECRET\<close>: the trimmed secret,
  or the legacy one when the secret is missing, empty or blank.
\<close>

definition effectiveSecret :: "string nullable \<Rightarrow> string" where
  "effectiveSecret secret =
     (case secret of
        Undefined \<Rightarrow> LEGACY_API_KEY_SECRET
      | Null \<Rightarrow> LEGACY_API_KEY_SECRET
      | Val s \<Rightarrow> if s = [] \<or> trim s = [] then LEGACY_API_KEY_SECRET else trim s)"

text \<open>
  \<open>generateCrc(machineId, keyId, secret)\<close>. HMAC-SHA256 is the platform's
  (\<open>crypto.subtle\<close>): the parameter \<open>hmacSha256 key data\<close> stands for the signature bytes
  of the UTF-8 encoded \<open>data\<close> under the UTF-8 encoded \<open>key\<close>.
\<close>

definition generateCrc ::
  "(string \<Rightarrow> string \<Rightarrow> 8 word list) \<Rightarrow> string \<Rightarrow> string \<Rightarrow> string nullable \<Rightarrow> string" where
  "generateCrc hmacSha256 machineId keyId secret =
     (let signature = hmacSha256 (effectiveSecret secret) (machineId @ keyId)
      in take 8 (hashHex signature))"

record parsedKey =
  machineId :: "string option"
  keyId :: string
  isNewFormat :: bool

text \<open>\<open>parseApiKey(apiKey, apiKeySecret)\<close>; \<open>None\<close> is \<open>null\<close>.\<close>

definition parseApiKey ::
  "(string \<Rightarrow> string \<Rightarrow> 8 word list) \<Rightarrow> string nullable \<Rightarrow> string nullable
     \<Rightarrow> parsedKey option" where
  "parseApiKey hmacSha256 apiKey apiKeySecret =
     (case apiKey of
        Undefined \<Rightarrow> None
      | Null \<Rightarrow> None
      | Val k \<Rightarrow>
          if k = [] \<or> \<not> startsWith k ''sk-'' then None
          else
            let parts = split CHR ''-'' k
            in if length parts = 4 then
                 let m = parts ! 1; i = parts ! 2; crc = parts ! 3;
                     expectedCrc = generateCrc hmacSha256 m i apiKeySecret
                 in if crc \<noteq> expectedCrc then None
                    else Some \<lparr>machineId = Some m, keyId = i, isNewFormat = True\<rparr>
               else if length parts = 2 then
                 Some \<lparr>machineId = None, keyId = parts ! 1, isNewFormat = False\<rparr>
               else None)"

text \<open>
  The claim's reading of the secret: the secret as it is configured, or the legacy default
  when none is configured; and the checksum the claim names, the first 8 hexadecimal
  characters of the HMAC of \<open>machineId + keyId\<close> under that secret.
\<close>

definition configuredSecret :: "string nullable \<Rightarrow> string" where
  "configuredSecret secret =
     (case secret of
        Undefined \<Rightarrow> LEGACY_API_KEY_SECRET
      | Null \<Rightarrow> LEGACY_API_KEY_SECRET
      | Val s \<Rightarrow> if s = [] then LEGACY_API_KEY_SECRET else s)"

definition claimed_crc ::
  "(string \<Rightarrow> string \<Rightarrow> 8 word list) \<Rightarrow> string \<Rightarrow> string \<Rightarrow> string nullable \<Rightarrow> string" where
  "claimed_crc hmacSha256 m i secret =
     take 8 (hashHex (hmacSha256 (configuredSecret secret) (m @ i)))"

text \<open>
  HMAC-SHA256 of the data \<open>m1k1\<close> under three keys, as a reference implementation
  computes it: the secret \<open>s3cret\<close> followed by a space, the secret \<open>s3cret\<close>, and the
  legacy secret. Elsewhere the function is empty; it is only run on these inputs.
\<close>

definition hmacSample :: "string \<Rightarrow> string \<Rightarrow> 8 word list" where
  "hmacSample key data =
     (if data \<noteq> ''m1k1'' then []
      else if key = ''s3cret '' then
           [0x3c, 0xd7, 0x95, 0x58, 0x27, 0xfe, 0x41, 0x3d, 0xb7, 0x68, 0xf3,
            0x73, 0x6e, 0x0d, 0x99, 0xfb, 0xdb, 0x84, 0x27, 0x7b, 0x4e, 0xa4,
            0x48, 0xd1, 0x4a, 0x67, 0x0d, 0x4c, 0xcf, 0xf1, 0xda, 0x8a]
      else if key = ''s3cret'' then
           [0x09, 0xa2, 0xe9, 0x6b, 0xf5, 0xc5, 0x50, 0xaf, 0xf2, 0xa3, 0xff,
            0x19, 0x67, 0x5e, 0x72, 0x83, 0x36, 0x7d, 0x09, 0x54, 0xcc, 0x94,
            0x48, 0x5d, 0xcf, 0x7e, 0xd9, 0xe6, 0x80, 0x58, 0x38, 0xe6]
      else if key = ''endpoint-proxy-api-key-secret'' then
           [0x47, 0x00, 0xc4, 0x56, 0x01, 0xdc, 0xc1, 0x6e, 0x0a, 0x62, 0xed,
            0x3d, 0xd0, 0x94, 0xa6, 0xf4, 0xd9, 0x56, 0x0b, 0xef, 0x21, 0x2d,
            0x77, 0xe6, 0x9a, 0xe6, 0x6c, 0x2f, 0xfe, 0xf6, 0x1a, 0x98]
      else [])"

section \<open>src/lib/settingsAllowlist.js\<close>

definition ALLOWED_SETTINGS_KEYS :: "string list" where
  "ALLOWED_SETTINGS_KEYS =
     [''cloudEnabled'', ''cloudUrl'', ''stickyRoundRobinLimit'', ''requireLogin'',
      ''observabilityEnabled'', ''observabilityMaxRecords'', ''observabilityBatchSize'',
      ''observabilityFlushIntervalMs'', ''observabilityMaxJsonSize'', ''password'']"

text \<open>
  An object is read through its property lookup \<open>body[key]\<close>: a map from keys to values,
  \<open>None\<close> where the lookup gives \<open>undefined\<close>. \<open>filterAllowedSettings(body)\<close> starts
  from the empty object and runs over the list in order.
\<close>

definition filterAllowedSettings :: "(string \<rightharpoonup> 'v) \<Rightarrow> (string \<rightharpoonup> 'v)" where
  "filterAllowedSettings body =
     fold (\<lambda>key updates. case body key of None \<Rightarrow> updates | Some v \<Rightarrow> updates(key \<mapsto> v))
       ALLOWED_SETTINGS_KEYS Map.empty"

section \<open>src/app/api/settings/route.js\<close>

text \<open>The values that \<open>request.json()\<close> can give.\<close>

datatype json =
  JNull | JBool bool | JNum real | JStr string | JArr "json list" | JObj "(string \<times> json) list"

text \<open>The truth value of a JSON value in a condition.\<close>

fun truthy :: "json \<Rightarrow> bool" where
  "truthy JNull = False"
| "truthy (JBool b) = b"
| "truthy (JNum n) = (n \<noteq> 0)"
| "truthy (JStr s) = (s \<noteq> [])"
| "truthy (JArr _) = True"
| "truthy (JObj _) = True"

text \<open>
  The property lookup of a parsed body, for the keys the route and the filter read (none
  of them is a property of \<open>Object.prototype\<close>, of an array or of a string). Reading a
  property of \<open>null\<close> throws: \<open>None\<close>. In an object with a key given twice the parser
  keeps the last value.
\<close>

fun props :: "json \<Rightarrow> (string \<rightharpoonup> json) option" where
  "props JNull = None"
| "props (JObj kvs) = Some (map_of (rev kvs))"
| "props _ = Some Map.empty"

text \<open>
  What a \<open>PATCH\<close> request ends in: an error response with its status, or the call
  \<open>updateSettings(updates)\<close> with the updates it applies.
\<close>

datatype patch_result = ErrorResponse nat | UpdateSettings "string \<rightharpoonup> json"

text \<open>
  Lines 56--59 and 62--63: salt and hash the new password, store it in the body under \<open>password\<close>,
  delete \<open>newPassword\<close> and \<open>currentPassword\<close>, then filter and update. \<open>bcrypt.hash\<close>
  with its fresh salt is a parameter, \<open>None\<close> where it rejects.
\<close>

definition hashAndUpdate ::
  "(json \<Rightarrow> string option) \<Rightarrow> (string \<rightharpoonup> json) \<Rightarrow> json \<Rightarrow> patch_result" where
  "hashAndUpdate bcrypt_hash body newPassword =
     (case bcrypt_hash newPassword of
        None \<Rightarrow> ErrorResponse 500
      | Some h \<Rightarrow>
          UpdateSettings (filterAllowedSettings
            (body(''password'' \<mapsto> JStr h, ''newPassword'' := None, ''currentPassword'' := None))))"

text \<open>
  Lines 42--54, the branch where no password is stored yet: in production the default
  \<open>123456\<close> is refused as the current password; a current password that is given must be
  the default.
\<close>

definition firstPassword ::
  "bool \<Rightarrow> (json \<Rightarrow> string option) \<Rightarrow> (string \<rightharpoonup> json) \<Rightarrow> json \<Rightarrow> patch_result" where
  "firstPassword production bcrypt_hash body newPassword =
     (if production \<and> body ''currentPassword'' = Some (JStr ''123456'') then ErrorResponse 400
      else if (case body ''currentPassword'' of
                 None \<Rightarrow> False
               | Some currentPassword \<Rightarrow>
                   truthy currentPassword \<and> currentPassword \<noteq> JStr ''123456'')
      then ErrorResponse 401
      else hashAndUpdate bcrypt_hash body newPassword)"

text \<open>
  \<open>PATCH(request)\<close>, lines 24--70. The parameters are what the handler takes from its
  surroundings: whether \<open>NODE_ENV\<close> is \<open>production\<close>, the stored settings
  (\<open>getSettings()\<close>, \<open>None\<close> where it throws), \<open>bcrypt.compare\<close> and \<open>bcrypt.hash\<close>
  (\<open>None\<close> where they reject), and the body (\<open>None\<close> where \<open>request.json()\<close> throws).
  Every exception ends in the \<open>catch\<close>, with status 500.
\<close>

definition PATCH ::
  "bool \<Rightarrow> (string \<rightharpoonup> json) option \<Rightarrow> (json \<Rightarrow> json \<Rightarrow> bool option) \<Rightarrow> (json \<Rightarrow> string option)
     \<Rightarrow> json option \<Rightarrow> patch_result" where
  "PATCH production getSettings bcrypt_compare bcrypt_hash request_json =
     (case request_json of
        None \<Rightarrow> ErrorResponse 500
      | Some b \<Rightarrow>
          (case props b of
             None \<Rightarrow> ErrorResponse 500
           | Some body \<Rightarrow>
               (case body ''newPassword'' of
                  None \<Rightarrow> UpdateSettings (filterAllowedSettings body)
                | Some newPassword \<Rightarrow>
                    if \<not> truthy newPassword then UpdateSettings (filterAllowedSettings body)
                    else
                      (case getSettings of
                         None \<Rightarrow> ErrorResponse 500
                       | Some settings \<Rightarrow>
                           (case settings ''password'' of
                              Some currentHash \<Rightarrow>
                                if truthy currentHash then
                                  (case body ''currentPassword'' of
                                     None \<Rightarrow> ErrorResponse 400
                                   | Some currentPassword \<Rightarrow>
                                       if \<not> truthy currentPassword then ErrorResponse 400
                                       else
                                         (case bcrypt_compare currentPassword currentHash of
                                            None \<Rightarrow> ErrorResponse 500
                                          | Some isValid \<Rightarrow>
                                              if \<not> isValid then ErrorResponse 401
                                              else hashAndUpdate bcrypt_hash body newPassword))
                                else firstPassword production bcrypt_hash body newPassword
                            | None \<Rightarrow> firstPassword production bcrypt_hash body newPassword)))))"

subsection \<open>The second revision of the two files\<close>

text \<open>
  The repository holds a second revision of \<open>settingsAllowlist.js\<close> and of the route
  (among the sources as \<open>unnamed/part_008\<close> and \<open>unnamed/part_009\<close>). Its
  list has no \<open>password\<close> entry ("intentionally excluded; the route updates it only after
  hashing"), and the route keeps the hash of the new password in a variable of its own,
  \<open>hashedNewPassword\<close>, which it stores in the updates after filtering: a \<open>password\<close>
  field of the body is never trusted.
\<close>

definition ALLOWED_SETTINGS_KEYS_rev2 :: "string list" where
  "ALLOWED_SETTINGS_KEYS_rev2 =
     [''cloudEnabled'', ''cloudUrl'', ''stickyRoundRobinLimit'', ''requireLogin'',
      ''observabilityEnabled'', ''observabilityMaxRecords'', ''observabilityBatchSize'',
      ''observabilityFlushIntervalMs'', ''observabilityMaxJsonSize'']"

definition filterAllowedSettings_rev2 :: "(string \<rightharpoonup> 'v) \<Rightarrow> (string \<rightharpoonup> 'v)" where
  "filterAllowedSettings_rev2 body =
     fold (\<lambda>key updates. case body key of None \<Rightarrow> updates | Some v \<Rightarrow> updates(key \<mapsto> v))
       ALLOWED_SETTINGS_KEYS_rev2 Map.empty"

definition hashAndUpdate_rev2 ::
  "(json \<Rightarrow> string option) \<Rightarrow> (string \<rightharpoonup> json) \<Rightarrow> json \<Rightarrow> patch_result" where
  "hashAndUpdate_rev2 bcrypt_hash body newPassword =
     (case bcrypt_hash newPassword of
        None \<Rightarrow> ErrorResponse 500
      | Some hashedNewPassword \<Rightarrow>
          UpdateSettings
            ((filterAllowedSettings_rev2
                (body(''newPassword'' := None, ''currentPassword'' := None)))
             (''password'' \<mapsto> JStr hashedNewPassword)))"

definition firstPassword_rev2 ::
  "bool \<Rightarrow> (json \<Rightarrow> string option) \<Rightarrow> (string \<rightharpoonup> json) \<Rightarrow> json \<Rightarrow> patch_result" where
  "firstPassword_rev2 production bcrypt_hash body newPassword =
     (if production \<and> body ''currentPassword'' = Some (JStr ''123456'') then ErrorResponse 400
      else if (case body ''currentPassword'' of
                 None \<Rightarrow> False
               | Some currentPassword \<Rightarrow>
                   truthy currentPassword \<and> currentPassword \<noteq> JStr ''123456'')
      then ErrorResponse 401
      else hashAndUpdate_rev2 bcrypt_hash body newPassword)"

definition PATCH_rev2 ::
  "bool \<Rightarrow> (string \<rightharpoonup> json) option \<Rightarrow> (json \<Rightarrow> json \<Rightarrow> bool option) \<Rightarrow> (json \<Rightarrow> string option)
     \<Rightarrow> json option \<Rightarrow> patch_result" where
  "PATCH_rev2 production getSettings bcrypt_compare bcrypt_hash request_json =
     (case request_json of
        None \<Rightarrow> ErrorResponse 500
      | Some b \<Rightarrow>
          (case props b of
             None \<Rightarrow> ErrorResponse 500
           | Some body \<Rightarrow>
               (case body ''newPassword'' of
                  None \<Rightarrow> UpdateSettings (filterAllowedSettings_rev2 body)
                | Some newPassword \<Rightarrow>
                    if \<not> truthy newPassword then UpdateSettings (filterAllowedSettings_rev2 body)
                    else
                      (case getSettings of
                         None \<Rightarrow> ErrorResponse 500
                       | Some settings \<Rightarrow>
                           (case settings ''password'' of
                              Some currentHash \<Rightarrow>
                                if truthy currentHash then
                                  (case body ''currentPassword'' of
                                     None \<Rightarrow> ErrorResponse 400
                                   | Some currentPassword \<Rightarrow>
                                       if \<not> truthy currentPassword then ErrorResponse 400
                                       else
                                         (case bcrypt_compare currentPassword currentHash of
                                            None \<Rightarrow> ErrorResponse 500
                                          | Some isValid \<Rightarrow>
                                              if \<not> isValid then ErrorResponse 401
                                              else hashAndUpdate_rev2 bcrypt_hash body newPassword))
                                else firstPassword_rev2 production bcrypt_hash body newPassword
                            | None \<Rightarrow> firstPassword_rev2 production bcrypt_hash body newPassword)))))"

text \<open>
  The body of the test "keeps only allowed keys" of the repository, as the parser would
  give it: two fields of the list, one outside it and a \<open>__proto__\<close> key.
\<close>

definition testBody :: "string \<rightharpoonup> json" where
  "testBody =
     map_of (rev [(''requireLogin'', JBool False), (''cloudUrl'', JStr ''https://evil.com''),
                  (''evilKey'', JStr ''must-be-dropped''),
                  (''__proto__'', JObj [(''polluted'', JBool True)])])"

section \<open>Account Fallback Policy and Pipeline Orchestrator\<close>

text \<open>
  Modelled from the spec: the Account Fallback Policy and the loop of the Pipeline
  Orchestrator (sections 3, 4.3 and 7), whose source is missing. Times and references to
  accounts are natural numbers; the classes of a failure are those of \<open>classify\<close>.
\<close>

type_synonym time = nat
type_synonym account_id = nat

datatype error_class = Transient | AuthExpired | QuotaExceeded | Fatal

text \<open>
  Modelled from the spec: the Account of section 3. Of its fields
  the policy reads the provider identifier and the cooldown state (\<open>cooledDownUntil\<close>,
  last error class), which is absent until the policy sets it. The credential fields are
  not read by selection and are left out.
\<close>

record cooldown_state =
  cooledDownUntil :: time
  lastErrorClass :: error_class

record account =
  provider :: string
  cooldown :: "cooldown_state option"

text \<open>
  Modelled from the spec: the accounts belong to the credential store and are shared by
  all requests; a Combo is an ordered sequence of references to them.
\<close>

type_synonym store = "account_id \<Rightarrow> account"

text \<open>
  Modelled from the spec: "Selection skips any Account whose \<open>cooledDownUntil\<close> is in the
  future."
\<close>

definition coolingDown :: "account \<Rightarrow> time \<Rightarrow> bool" where
  "coolingDown acc now =
     (case cooldown acc of None \<Rightarrow> False | Some c \<Rightarrow> now < cooledDownUntil c)"

text \<open>
  Modelled from the spec: the ExecutionContext of section 3, without the request (which
  selection does not read) and the cancellation signal (which comes from outside and is
  part of the environment below): the current position in the Combo, the accumulated
  errors per attempted account and the attempt counter.
\<close>

record 'e execution_context =
  position :: nat
  errors :: "account_id \<rightharpoonup> 'e"
  attempt :: nat

text \<open>
  Modelled from the spec: \<open>selectNext(combo, context) -> Account | Exhausted\<close> of section
  4.3. Fallback only advances an index into the Combo, so the search starts at the
  position of the context and skips every account that is cooling down. The result names
  the account and its index.
\<close>

datatype selection = Selected nat account_id | Exhausted

fun scan :: "store \<Rightarrow> time \<Rightarrow> nat \<Rightarrow> account_id list \<Rightarrow> selection" where
  "scan st now i [] = Exhausted"
| "scan st now i (a # as) =
     (if coolingDown (st a) now then scan st now (Suc i) as else Selected i a)"

definition selectNext :: "store \<Rightarrow> time \<Rightarrow> account_id list \<Rightarrow> 'e execution_context \<Rightarrow> selection" where
  "selectNext st now combo ctx = scan st now (position ctx) (drop (position ctx) combo)"

text \<open>
  Modelled from the spec: on QuotaExceeded, "set \<open>cooledDownUntil\<close> on that Account to now
  + a provider-specific backoff window".
\<close>

definition setCooldown :: "store \<Rightarrow> account_id \<Rightarrow> time \<Rightarrow> store" where
  "setCooldown st a until =
     st(a := (st a)\<lparr>cooldown := Some \<lparr>cooledDownUntil = until, lastErrorClass = QuotaExceeded\<rparr>\<rparr>)"

text \<open>
  Modelled from the spec: \<open>ComboExhaustedError\<close> of section 7, which "aggregates the last
  error per account": for an account attempted in this request the last error the context
  holds for it, for an account that was skipped the failure its cooldown state records.
\<close>

datatype 'e failure = Attempted 'e | CooledDown cooldown_state

definition lastFailure :: "store \<Rightarrow> 'e execution_context \<Rightarrow> account_id \<Rightarrow> 'e failure option" where
  "lastFailure st ctx a =
     (case errors ctx a of
        Some e \<Rightarrow> Some (Attempted e)
      | None \<Rightarrow> map_option CooledDown (cooldown (st a)))"

definition aggregate ::
  "store \<Rightarrow> 'e execution_context \<Rightarrow> account_id list \<Rightarrow> (account_id \<times> 'e failure) list" where
  "aggregate st ctx combo =
     List.map_filter (\<lambda>a. map_option (Pair a) (lastFailure st ctx a)) (remdups combo)"

datatype 'e orchestrator_error =
  ComboExhaustedError "(account_id \<times> 'e failure) list" | Cancelled

datatype ('e, 'r) outcome = Completed 'r | Failed "'e orchestrator_error"

text \<open>
  Modelled from the spec: what surrounds the orchestrator. \<open>classify\<close> is the
  classification of section 4.3; \<open>upstream a n\<close> is what the executor's network call
  for account \<open>a\<close> returns at attempt \<open>n\<close>; \<open>clock n\<close> is the time of attempt \<open>n\<close>;
  \<open>backoff\<close> is the provider-specific backoff window and \<open>transientCap\<close> the cap on
  retries of a transient failure (the specification leaves both open); \<open>cancelled n\<close>
  tells whether the caller has disconnected by attempt \<open>n\<close>.
\<close>

record ('e, 'r) env =
  classify :: "'e \<Rightarrow> error_class"
  upstream :: "account_id \<Rightarrow> nat \<Rightarrow> 'e + 'r"
  clock :: "nat \<Rightarrow> time"
  backoff :: "string \<Rightarrow> time"
  transientCap :: nat
  cancelled :: "nat \<Rightarrow> bool"

text \<open>
  Bookkeeping of the model: what a run of the orchestrator leaves behind, its outcome, the results of the calls of
  \<open>selectNext\<close> in order, the number of network calls, the failed calls in order (the
  account and its error), and the store.
\<close>

record ('e, 'r) run =
  outcome :: "('e, 'r) outcome"
  selections :: "selection list"
  calls :: nat
  failures :: "(account_id \<times> 'e) list"
  finalStore :: store

text \<open>A selection, a network call for the selected account and its failure, then the rest.\<close>

definition observed :: "selection \<Rightarrow> account_id \<Rightarrow> 'e \<Rightarrow> ('e, 'r) run \<Rightarrow> ('e, 'r) run" where
  "observed s a e r =
     r\<lparr>selections := s # selections r, calls := Suc (calls r), failures := (a, e) # failures r\<rparr>"

lemma selectNext_bounds:
  "selectNext st now combo ctx = Selected i a \<Longrightarrow> position ctx \<le> i \<and> i < length combo"
proof -
  have "scan st now p as = Selected i a \<Longrightarrow> p \<le> i \<and> i < p + length as" for p as
    by (induction as arbitrary: p) (fastforce split: if_splits)+
  from this [of "position ctx" "drop (position ctx) combo"]
  show "selectNext st now combo ctx = Selected i a \<Longrightarrow> position ctx \<le> i \<and> i < length combo"
    by (auto simp: selectNext_def)
qed

text \<open>
  Modelled from the spec: the loop of the state machine, \<open>AccountSelected \<rightarrow> Executing \<rightarrow>
  Completed\<close> with the error branch \<open>Executing \<rightarrow> Classifying \<rightarrow> (AccountSelected |
  Exhausted \<rightarrow> Failed)\<close>. Cancellation is checked before each network call. After a
  failure: QuotaExceeded sets the cooldown and advances; Fatal advances; Transient retries
  the same account up to the cap, then advances; AuthExpired retries the same account once
  (after the forced refresh, which is outside this model), then advances. \<open>retries\<close> and
  \<open>refreshed\<close> count the retries on the account at hand.
\<close>

function orchestrate ::
  "('e, 'r) env \<Rightarrow> account_id list \<Rightarrow> store \<Rightarrow> 'e execution_context \<Rightarrow> nat \<Rightarrow> bool \<Rightarrow> ('e, 'r) run" where
  "orchestrate env combo st ctx retries refreshed =
     (let now = clock env (attempt ctx)
      in case selectNext st now combo ctx of
           Exhausted \<Rightarrow>
             \<lparr>outcome = Failed (ComboExhaustedError (aggregate st ctx combo)),
              selections = [Exhausted], calls = 0, failures = [], finalStore = st\<rparr>
         | Selected i a \<Rightarrow>
             if cancelled env (attempt ctx) then
               \<lparr>outcome = Failed Cancelled, selections = [Selected i a], calls = 0,
                failures = [], finalStore = st\<rparr>
             else
               (case upstream env a (attempt ctx) of
                  Inr r \<Rightarrow>
                    \<lparr>outcome = Completed r, selections = [Selected i a], calls = 1,
                     failures = [], finalStore = st\<rparr>
                | Inl e \<Rightarrow>
                    let failed = ctx\<lparr>errors := (errors ctx)(a \<mapsto> e), attempt := Suc (attempt ctx)\<rparr>;
                        same = failed\<lparr>position := i\<rparr>;
                        next = failed\<lparr>position := Suc i\<rparr>
                    in observed (Selected i a) a e
                         (case classify env e of
                            QuotaExceeded \<Rightarrow>
                              orchestrate env combo
                                (setCooldown st a (now + backoff env (provider (st a))))
                                next 0 False
                          | Fatal \<Rightarrow> orchestrate env combo st next 0 False
                          | Transient \<Rightarrow>
                              if retries < transientCap env
                              then orchestrate env combo st same (Suc retries) refreshed
                              else orchestrate env combo st next 0 False
                          | AuthExpired \<Rightarrow>
                              if \<not> refreshed
                              then orchestrate env combo st same retries True
                              else orchestrate env combo st next 0 False)))"
  by pat_completeness auto
termination
proof (relation "measures
         [\<lambda>(env, combo, st, ctx, retries, refreshed). length combo - position ctx,
          \<lambda>(env, combo, st, ctx, retries, refreshed).
             (transientCap env - retries) + (if refreshed then 0 else 1)]",
       goal_cases)
  case 1
  show ?case by simp
next
  case (2 env combo st ctx retries refreshed now i a e)
  then show ?case using selectNext_bounds [of st now combo ctx i a] by auto
next
  case (3 env combo st ctx retries refreshed now i a e)
  then show ?case using selectNext_bounds [of st now combo ctx i a] by auto
next
  case (4 env combo st ctx retries refreshed now i a e)
  then show ?case using selectNext_bounds [of st now combo ctx i a] by auto
next
  case (5 env combo st ctx retries refreshed now i a e)
  then show ?case using selectNext_bounds [of st now combo ctx i a] by auto
next
  case (6 env combo st ctx retries refreshed now i a e)
  then show ?case using selectNext_bounds [of st now combo ctx i a] by auto
next
  case (7 env combo st ctx retries refreshed now i a e)
  then show ?case using selectNext_bounds [of st now combo ctx i a] by auto
qed

declare orchestrate.simps [simp del]

text \<open>
  The context a request starts with, and the invariant of the loop that the error
  aggregation rests on: every account before the position has a failure to cite.
\<close>

definition start :: "'e execution_context" where
  "start = \<lparr>position = 0, errors = Map.empty, attempt = 0\<rparr>"

definition accounted :: "store \<Rightarrow> 'e execution_context \<Rightarrow> account_id list \<Rightarrow> bool" where
  "accounted st ctx combo =
     list_all (\<lambda>a. lastFailure st ctx a \<noteq> None) (take (position ctx) combo)"

text \<open>
  The last failure of each account in a list of failed calls, and an environment for the
  scenarios of section 8 of the specification: errors are HTTP statuses, account 0 answers
  429 and every other account answers.
\<close>

definition lastOf :: "(account_id \<times> 'e) list \<Rightarrow> (account_id \<rightharpoonup> 'e)" where
  "lastOf fs = map_of (rev fs)"

definition fresh :: store where
  "fresh = (\<lambda>_. \<lparr>provider = ''vendor'', cooldown = None\<rparr>)"

definition scenarioEnv :: "(nat, string) env" where
  "scenarioEnv =
     \<lparr>classify = (\<lambda>status. if status = 429 then QuotaExceeded
                          else if status = 401 \<or> status = 403 then AuthExpired
                          else if 500 \<le> status then Transient else Fatal),
      upstream = (\<lambda>a n. if a = 0 then Inl 429 else Inr ''response''),
      clock = (\<lambda>n. 1000 + n),
      backoff = (\<lambda>_. 60),
      transientCap = 2,
      cancelled = (\<lambda>_. False)\<rparr>"

text \<open>A store in which accounts 0, 1 and 2 are cooling down at time 1000.\<close>

definition allCooled :: store where
  "allCooled = setCooldown (setCooldown (setCooldown fresh 0 2000) 1 3000) 2 4000"

section \<open>Streaming Controller\<close>

text \<open>
  Modelled from the spec: the Streaming Controller of section 4.4, whose source is missing.
  The upstream source is the finite sequence of events the controller reads before the
  connection closes: a content frame, or the explicit end-of-stream marker. Each event
  comes with the time that has passed since the event before it (since the start of the
  execution, for the first): time does not run backwards.
\<close>

datatype 'f event = Frame 'f | EndOfStream

datatype mode = Passthrough | Translate

text \<open>
  Modelled from the spec: the StreamTelemetry of section 3. The two byte times are absent
  until they are recorded.
\<close>

record stream_telemetry =
  requestStart :: time
  timeToFirstByte :: "time option"
  timeOfLastByte :: "time option"
  chunkCount :: nat
  emittedTokens :: nat

datatype stream_status = StreamCompleted | StreamTruncatedError

text \<open>
  Bookkeeping of the model: what the controller leaves behind, the frames it emitted to the caller, in order; whether
  the stream completed or was truncated; and the telemetry, finalized in both cases.
\<close>

record 'f stream_result =
  frames :: "'f list"
  status :: stream_status
  telemetry :: stream_telemetry

text \<open>
  Modelled from the spec: "On the first byte observed, record time-to-first-byte."
\<close>

definition firstByte :: "time \<Rightarrow> stream_telemetry \<Rightarrow> stream_telemetry" where
  "firstByte t tel =
     (case timeToFirstByte tel of
        None \<Rightarrow> tel\<lparr>timeToFirstByte := Some t\<rparr>
      | Some _ \<Rightarrow> tel)"

text \<open>
  Modelled from the spec: passthrough re-emits the frame unmodified; translate reshapes it
  (into a CanonicalChunk and then into the caller's format: the parameter \<open>reshape\<close>,
  which is taken to succeed on every frame).
\<close>

definition emit :: "mode \<Rightarrow> ('f \<Rightarrow> 'f) \<Rightarrow> 'f \<Rightarrow> 'f" where
  "emit m reshape f = (case m of Passthrough \<Rightarrow> f | Translate \<Rightarrow> reshape f)"

text \<open>
  Modelled from the spec: the controller reads the events in order; \<open>now\<close> is the time of
  the event before. A content frame is emitted and counted. The end-of-stream marker is
  the terminal event: it records time-of-last-byte and ends the stream as completed,
  whatever follows. When the events run out the connection has closed without a marker: the
  stream is truncated, and no time-of-last-byte is recorded. \<open>tokensOf\<close> counts the tokens
  of an emitted frame.
\<close>

fun streamLoop ::
  "mode \<Rightarrow> ('f \<Rightarrow> 'f) \<Rightarrow> ('f \<Rightarrow> nat) \<Rightarrow> time \<Rightarrow> stream_telemetry \<Rightarrow> (time \<times> 'f event) list
     \<Rightarrow> 'f stream_result" where
  "streamLoop m reshape tokensOf now tel [] =
     \<lparr>frames = [], status = StreamTruncatedError, telemetry = tel\<rparr>"
| "streamLoop m reshape tokensOf now tel ((elapsed, EndOfStream) # rest) =
     (let t = now + elapsed
      in \<lparr>frames = [], status = StreamCompleted,
          telemetry = (firstByte t tel)\<lparr>timeOfLastByte := Some t\<rparr>\<rparr>)"
| "streamLoop m reshape tokensOf now tel ((elapsed, Frame f) # rest) =
     (let t = now + elapsed;
          out = emit m reshape f;
          tel' = (firstByte t tel)\<lparr>chunkCount := Suc (chunkCount tel),
                                   emittedTokens := emittedTokens tel + tokensOf out\<rparr>;
          r = streamLoop m reshape tokensOf t tel' rest
      in r\<lparr>frames := out # frames r\<rparr>)"

text \<open>Modelled from the spec: the telemetry is created at execution start.\<close>

definition runStream ::
  "mode \<Rightarrow> ('f \<Rightarrow> 'f) \<Rightarrow> ('f \<Rightarrow> nat) \<Rightarrow> time \<Rightarrow> (time \<times> 'f event) list \<Rightarrow> 'f stream_result" where
  "runStream m reshape tokensOf startedAt events =
     streamLoop m reshape tokensOf startedAt
       \<lparr>requestStart = startedAt, timeToFirstByte = None, timeOfLastByte = None,
        chunkCount = 0, emittedTokens = 0\<rparr> events"

text \<open>The content frames of a sequence of events, in order.\<close>

fun contentFrames :: "(time \<times> 'f event) list \<Rightarrow> 'f list" where
  "contentFrames [] = []"
| "contentFrames ((t, Frame f) # rest) = f # contentFrames rest"
| "contentFrames ((t, EndOfStream) # rest) = contentFrames rest"

section \<open>Properties of calculateThroughput\<close>

lemma js_le_Fin [simp]: "js_le (Fin a) (Fin b) = (a \<le> b)"
  by (auto simp: js_le_def)

lemma js_gt_Fin [simp]: "js_gt (Fin a) (Fin b) = (b < a)"
  by (simp add: js_gt_def)

lemma calculateThroughput_finite_nonneg:
  "calculateThroughput rnd ct lm od = Some r \<Longrightarrow> \<exists>y. r = Fin y \<and> 0 \<le> y"
  by (cases r) (auto simp: calculateThroughput_def Let_def split: nullable.splits if_splits)

lemma calculateThroughput_guard:
  "ct = Undefined \<or> ct = Null \<or> lm = Undefined \<or> lm = Null
     \<or> (\<exists>t. ct = Val t \<and> js_le t (Fin 0)) \<or> (\<exists>l. lm = Val l \<and> js_le l (Fin 0))
   \<Longrightarrow> calculateThroughput rnd ct lm od = None"
  by (auto simp: calculateThroughput_def Let_def split: nullable.splits)

text \<open>The duration of lines 29--31, case by case.\<close>

lemma durationMs_cases:
  assumes "(od = Val (Fin d) \<and> 0 < d)
     \<or> (d = l \<and> (od = Undefined \<or> od = Null \<or> od = Val NaN \<or> od = Val NegInf
                  \<or> (\<exists>x. od = Val (Fin x) \<and> x \<le> 0)))"
  shows "durationMs (Fin l) od = Fin d"
  using assms by (auto simp: durationMs_def js_gt_def)

text \<open>Line 40 and the check of lines 43--45, once the guards are passed.\<close>

lemma calculateThroughput_compute:
  assumes "0 < t" "0 < l" "0 < d" "durationMs (Fin l) od = Fin d"
  shows "calculateThroughput rnd (Val (Fin t)) (Val (Fin l)) od
           = (case rnd (t / d) of
                Fin q \<Rightarrow> (case rnd (q * 1000) of
                            Fin z \<Rightarrow> if z < 0 then None else Some (Fin z)
                          | _ \<Rightarrow> None)
              | PosInf \<Rightarrow> None
              | NegInf \<Rightarrow> None
              | NaN \<Rightarrow> None)"
proof -
  from assms have "calculateThroughput rnd (Val (Fin t)) (Val (Fin l)) od
      = (let throughput = js_mul rnd (rnd (t / d)) (Fin 1000)
         in if \<not> isFinite throughput \<or> js_lt throughput (Fin 0) then None else Some throughput)"
    by (simp add: calculateThroughput_def)
  also have "\<dots> = (case rnd (t / d) of
                Fin q \<Rightarrow> (case rnd (q * 1000) of
                            Fin z \<Rightarrow> if z < 0 then None else Some (Fin z)
                          | _ \<Rightarrow> None)
              | PosInf \<Rightarrow> None
              | NegInf \<Rightarrow> None
              | NaN \<Rightarrow> None)"
    by (cases "rnd (t / d)") (auto simp: Let_def split: jsnum.splits)
  finally show ?thesis .
qed

lemma keepsSign_cases:
  assumes "keepsSign rnd" "0 \<le> x"
  obtains y where "rnd x = Fin y" "0 \<le> y" | "rnd x = PosInf"
  using assms by (cases "rnd x") (auto simp: keepsSign_def split: jsnum.splits)

lemma keepsSign_sampleRound: "keepsSign sampleRound"
  by (auto simp: keepsSign_def sampleRound_def)

text \<open>
  C1, as the specification states it, fails on the code. With 100 completion tokens, a
  latency of 0 ms and an output duration of 500 ms the effective duration is 500 ms and the
  claim promises 200 tokens per second; the code rejects the latency first and returns
  null. With 5 tokens and an infinite latency the code returns 0, which is not strictly
  positive; with a token count of NaN neither guard of the claim holds and the code
  returns null, where the claim promises a number. With \<open>2^1023\<close> tokens in 1 ms the
  multiplication by 1000 overflows and the code returns null; with \<open>2^-1074\<close> tokens (the
  smallest positive double) in 1024 ms the division underflows and the code returns 0.
\<close>

theorem calculateThroughput_claim_counterexample:
  "calculateThroughput sampleRound (Val (Fin 100)) (Val (Fin 0)) (Val (Fin 500)) = None
   \<and> claimed_calculateThroughput sampleRound (Fin 100) (Fin 0) (Val (Fin 500)) = Some (Fin 200)
   \<and> calculateThroughput sampleRound (Val (Fin 5)) (Val PosInf) Undefined = Some (Fin 0)
   \<and> calculateThroughput sampleRound (Val NaN) (Val (Fin 100)) Undefined = None
   \<and> claimed_calculateThroughput sampleRound NaN (Fin 100) Undefined = Some NaN
   \<and> calculateThroughput sampleRound (Val (Fin (2 ^ 1023))) (Val (Fin 1)) Undefined = None
   \<and> calculateThroughput sampleRound (Val (Fin (1 / 2 ^ 1074))) (Val (Fin 1024)) Undefined
       = Some (Fin 0)"
  by (simp add: calculateThroughput_def claimed_calculateThroughput_def durationMs_def
        js_le_def js_gt_def sampleRound_def)

text \<open>
  C1, amended. For every input and every rounding, \<open>calculateThroughput\<close> never returns
  a negative or non-finite number. It returns null whenever \<open>completionTokens\<close> or
  \<open>latencyMs\<close> is undefined, null or at most zero, whatever \<open>outputDurationMs\<close> is (so
  whenever the token count or the duration is at most zero). For finite
  \<open>completionTokens > 0\<close> and \<open>latencyMs > 0\<close>, the duration \<open>d\<close> is \<open>outputDurationMs\<close>
  when that is a finite number above zero, and \<open>latencyMs\<close> when \<open>outputDurationMs\<close> is
  undefined, null, NaN, minus infinity or at most zero. The function then returns the
  double that \<open>(completionTokens / d) * 1000\<close> gives, each operation rounded, when that is
  finite, and null when the division or the multiplication overflows; with a rounding that
  keeps the sign, as that of IEEE 754 does, these are the only two cases and the number is
  not negative. Where the two operations are exact, the number is \<open>completionTokens\<close>
  divided by the duration in seconds, and strictly positive.
\<close>

theorem calculateThroughput_amended:
  "(\<forall>r. calculateThroughput rnd ct lm od = Some r \<longrightarrow> (\<exists>y. r = Fin y \<and> 0 \<le> y))
   \<and> (ct = Undefined \<or> ct = Null \<or> lm = Undefined \<or> lm = Null
        \<or> (\<exists>t. ct = Val t \<and> js_le t (Fin 0)) \<or> (\<exists>l. lm = Val l \<and> js_le l (Fin 0))
      \<longrightarrow> calculateThroughput rnd ct lm od = None)
   \<and> (\<forall>t l d. ct = Val (Fin t) \<and> lm = Val (Fin l) \<and> 0 < t \<and> 0 < l
          \<and> ((od = Val (Fin d) \<and> 0 < d)
               \<or> (d = l \<and> (od = Undefined \<or> od = Null \<or> od = Val NaN \<or> od = Val NegInf
                            \<or> (\<exists>x. od = Val (Fin x) \<and> x \<le> 0))))
      \<longrightarrow> (\<forall>q z. rnd (t / d) = Fin q \<and> rnd (q * 1000) = Fin z \<and> 0 \<le> z
              \<longrightarrow> calculateThroughput rnd ct lm od = Some (Fin z))
          \<and> (rnd (t / d) = PosInf \<or> (\<exists>q. rnd (t / d) = Fin q \<and> rnd (q * 1000) = PosInf)
              \<longrightarrow> calculateThroughput rnd ct lm od = None)
          \<and> (keepsSign rnd
              \<longrightarrow> (\<exists>q z. rnd (t / d) = Fin q \<and> rnd (q * 1000) = Fin z \<and> 0 \<le> q \<and> 0 \<le> z
                         \<and> calculateThroughput rnd ct lm od = Some (Fin z))
                  \<or> ((rnd (t / d) = PosInf \<or> (\<exists>q. rnd (t / d) = Fin q \<and> rnd (q * 1000) = PosInf))
                      \<and> calculateThroughput rnd ct lm od = None))
          \<and> (rnd (t / d) = Fin (t / d) \<and> rnd (t / d * 1000) = Fin (t / d * 1000)
              \<longrightarrow> calculateThroughput rnd ct lm od = Some (Fin (t / (d / 1000)))
                  \<and> 0 < t / (d / 1000)))"
proof (intro conjI allI impI)
  fix r assume "calculateThroughput rnd ct lm od = Some r"
  then show "\<exists>y. r = Fin y \<and> 0 \<le> y" by (rule calculateThroughput_finite_nonneg)
next
  assume "ct = Undefined \<or> ct = Null \<or> lm = Undefined \<or> lm = Null
        \<or> (\<exists>t. ct = Val t \<and> js_le t (Fin 0)) \<or> (\<exists>l. lm = Val l \<and> js_le l (Fin 0))"
  then show "calculateThroughput rnd ct lm od = None" by (rule calculateThroughput_guard)
next
  fix t l d
  assume h: "ct = Val (Fin t) \<and> lm = Val (Fin l) \<and> 0 < t \<and> 0 < l
          \<and> ((od = Val (Fin d) \<and> 0 < d)
               \<or> (d = l \<and> (od = Undefined \<or> od = Null \<or> od = Val NaN \<or> od = Val NegInf
                            \<or> (\<exists>x. od = Val (Fin x) \<and> x \<le> 0))))"
  then have ct: "ct = Val (Fin t)" and lm: "lm = Val (Fin l)" and t: "0 < t" and l: "0 < l"
    and dc: "(od = Val (Fin d) \<and> 0 < d)
               \<or> (d = l \<and> (od = Undefined \<or> od = Null \<or> od = Val NaN \<or> od = Val NegInf
                            \<or> (\<exists>x. od = Val (Fin x) \<and> x \<le> 0)))"
    by blast+
  from dc l have d: "0 < d" by blast
  note dur = durationMs_cases [OF dc]
  note c = calculateThroughput_compute [OF t l d dur, of rnd, folded ct lm]
  {
    fix q z assume "rnd (t / d) = Fin q \<and> rnd (q * 1000) = Fin z \<and> 0 \<le> z"
    then show "calculateThroughput rnd ct lm od = Some (Fin z)" by (simp add: c)
  next
    assume "rnd (t / d) = PosInf \<or> (\<exists>q. rnd (t / d) = Fin q \<and> rnd (q * 1000) = PosInf)"
    then show "calculateThroughput rnd ct lm od = None" by (auto simp: c)
  next
    assume k: "keepsSign rnd"
    from t d have "0 \<le> t / d" by simp
    with k show "(\<exists>q z. rnd (t / d) = Fin q \<and> rnd (q * 1000) = Fin z \<and> 0 \<le> q \<and> 0 \<le> z
                         \<and> calculateThroughput rnd ct lm od = Some (Fin z))
                  \<or> ((rnd (t / d) = PosInf \<or> (\<exists>q. rnd (t / d) = Fin q \<and> rnd (q * 1000) = PosInf))
                      \<and> calculateThroughput rnd ct lm od = None)"
    proof (cases rule: keepsSign_cases)
      case (1 q)
      then have "0 \<le> q * 1000" by simp
      with k show ?thesis
      proof (cases rule: keepsSign_cases)
        case (1 z)
        with \<open>rnd (t / d) = Fin q\<close> \<open>0 \<le> q\<close> show ?thesis by (simp add: c)
      next
        case 2
        with \<open>rnd (t / d) = Fin q\<close> show ?thesis by (simp add: c)
      qed
    next
      case 2
      then show ?thesis by (simp add: c)
    qed
  next
    assume e: "rnd (t / d) = Fin (t / d) \<and> rnd (t / d * 1000) = Fin (t / d * 1000)"
    from t d have pos: "0 < t / d * 1000" by simp
    have eq: "t / d * 1000 = t / (d / 1000)" by simp
    from e pos have "calculateThroughput rnd ct lm od = Some (Fin (t / d * 1000))"
      by (simp add: c not_less [symmetric] less_imp_le)
    with eq show "calculateThroughput rnd ct lm od = Some (Fin (t / (d / 1000)))" by simp
    from pos eq show "0 < t / (d / 1000)" by simp
  }
qed

text \<open>
  The witness runs the function with the sample rounding, which keeps the sign, on inputs
  whose quotients and products are doubles: 1000 tokens in 500 ms of output are 2000 tokens
  per second; 500 tokens in 2000 ms of latency are 250; no tokens, or no latency, is null;
  \<open>2^1023\<close> tokens in 1 ms overflow to null.
\<close>

theorem calculateThroughput_amended_witness:
  "keepsSign sampleRound
   \<and> calculateThroughput sampleRound (Val (Fin 1000)) (Val (Fin 2000)) (Val (Fin 500))
       = Some (Fin 2000)
   \<and> calculateThroughput sampleRound (Val (Fin 500)) (Val (Fin 2000)) Undefined = Some (Fin 250)
   \<and> calculateThroughput sampleRound (Val (Fin 0)) (Val (Fin 2000)) (Val (Fin 500)) = None
   \<and> calculateThroughput sampleRound (Val (Fin 100)) Null (Val (Fin 500)) = None
   \<and> calculateThroughput sampleRound (Val (Fin (2 ^ 1023))) (Val (Fin 1)) Undefined = None"
proof -
  note given = calculateThroughput_amended [where rnd = sampleRound and ct = "Val (Fin 1000)"
      and lm = "Val (Fin 2000)" and od = "Val (Fin 500)"]
  note latency = calculateThroughput_amended [where rnd = sampleRound and ct = "Val (Fin 500)"
      and lm = "Val (Fin 2000)" and od = Undefined]
  note tokens = calculateThroughput_amended [where rnd = sampleRound and ct = "Val (Fin 0)"
      and lm = "Val (Fin 2000)" and od = "Val (Fin 500)"]
  note missing = calculateThroughput_amended [where rnd = sampleRound and ct = "Val (Fin 100)"
      and lm = Null and od = "Val (Fin 500)"]
  note overflow = calculateThroughput_amended [where rnd = sampleRound
      and ct = "Val (Fin (2 ^ 1023))" and lm = "Val (Fin 1)" and od = Undefined]
  have 1: "calculateThroughput sampleRound (Val (Fin 1000)) (Val (Fin 2000)) (Val (Fin 500))
       = Some (Fin 2000)"
    using given [THEN conjunct2, THEN conjunct2, rule_format, of 1000 2000 500,
        THEN conjunct2, THEN conjunct2, THEN conjunct2]
    by (simp add: sampleRound_def)
  have 2: "calculateThroughput sampleRound (Val (Fin 500)) (Val (Fin 2000)) Undefined
       = Some (Fin 250)"
    using latency [THEN conjunct2, THEN conjunct2, rule_format, of 500 2000 2000,
        THEN conjunct1, rule_format, of "1 / 4" 250]
    by (simp add: sampleRound_def)
  have 3: "calculateThroughput sampleRound (Val (Fin 0)) (Val (Fin 2000)) (Val (Fin 500)) = None"
    using tokens by simp
  have 4: "calculateThroughput sampleRound (Val (Fin 100)) Null (Val (Fin 500)) = None"
    using missing by simp
  have 5: "calculateThroughput sampleRound (Val (Fin (2 ^ 1023))) (Val (Fin 1)) Undefined = None"
    using overflow [THEN conjunct2, THEN conjunct2, rule_format, of "2 ^ 1023" 1 1,
        THEN conjunct2, THEN conjunct1]
    by (simp add: sampleRound_def)
  from keepsSign_sampleRound 1 2 3 4 5 show ?thesis by blast
qed

section \<open>Properties of getAllowedRedirectUri\<close>

text \<open>
  C10. For every origin and requested redirect URI, and whatever the URL parser is:
  the result is \<open>origin + "/callback"\<close> when the requested URI is null, undefined or
  empty; otherwise it is the requested URI, unchanged, exactly when the URI parses as a
  URL whose pathname is \<open>/callback\<close> or ends with \<open>/callback\<close> and which is same-origin
  with the given origin or has hostname \<open>localhost\<close> or \<open>127.0.0.1\<close> with an empty or
  purely numeric port; in every other case, also when the URI does not parse, it is null.
\<close>

theorem getAllowedRedirectUri_spec:
  "(req = Undefined \<or> req = Null \<or> req = Val []
      \<longrightarrow> getAllowedRedirectUri parseURL origin req = Some (origin @ ''/callback''))
   \<and> (\<forall>s. req = Val s \<and> s \<noteq> [] \<longrightarrow>
         (getAllowedRedirectUri parseURL origin req = Some s
            \<longleftrightarrow> (\<exists>u. parseURL s = Some u
                  \<and> (url_pathname u = ''/callback'' \<or> endsWith (url_pathname u) ''/callback'')
                  \<and> (url_origin u = origin
                       \<or> ((url_hostname u = ''localhost'' \<or> url_hostname u = ''127.0.0.1'')
                           \<and> (url_port u = [] \<or> allDigits (url_port u))))))
         \<and> (getAllowedRedirectUri parseURL origin req \<noteq> Some s
            \<longrightarrow> getAllowedRedirectUri parseURL origin req = None))"
  by (auto simp: getAllowedRedirectUri_def Let_def split: nullable.splits option.splits)

theorem getAllowedRedirectUri_spec_witness:
  "getAllowedRedirectUri testURL ''http://localhost:20128'' Null
     = Some ''http://localhost:20128/callback''
   \<and> getAllowedRedirectUri testURL ''http://localhost:20128''
         (Val ''http://localhost:8080/callback'') = Some ''http://localhost:8080/callback''
   \<and> getAllowedRedirectUri testURL ''http://localhost:20128''
         (Val ''https://evil.com/callback'') = None
   \<and> getAllowedRedirectUri testURL ''http://localhost:20128''
         (Val ''http://localhost:20128/dashboard'') = None
   \<and> getAllowedRedirectUri testURL ''http://localhost:20128'' (Val ''not-a-url'') = None"
  using
    getAllowedRedirectUri_spec [of Null testURL "''http://localhost:20128''"]
    getAllowedRedirectUri_spec [of "Val ''http://localhost:8080/callback''" testURL
      "''http://localhost:20128''"]
    getAllowedRedirectUri_spec [of "Val ''https://evil.com/callback''" testURL
      "''http://localhost:20128''"]
    getAllowedRedirectUri_spec [of "Val ''http://localhost:20128/dashboard''" testURL
      "''http://localhost:20128''"]
    getAllowedRedirectUri_spec [of "Val ''not-a-url''" testURL "''http://localhost:20128''"]
  by (simp add: testURL_def endsWith_def allDigits_def isDigit_def)

section \<open>Properties of parseApiKey\<close>

lemma split_nonempty [simp]: "split sep s \<noteq> []"
  by (induction s) (auto split: list.splits)

lemma split_no_sep: "sep \<notin> set a \<Longrightarrow> split sep a = [a]"
  by (induction a) auto

lemma split_append: "sep \<notin> set a \<Longrightarrow> split sep (a @ sep # r) = a # split sep r"
  by (induction a) auto

lemma split_new_format:
  "CHR ''-'' \<notin> set m \<Longrightarrow> CHR ''-'' \<notin> set i \<Longrightarrow> CHR ''-'' \<notin> set c \<Longrightarrow>
   split CHR ''-'' (''sk-'' @ m @ ''-'' @ i @ ''-'' @ c) = [''sk'', m, i, c]"
  using split_append [of "CHR ''-''" "''sk''" "m @ ''-'' @ i @ ''-'' @ c"]
    split_append [of "CHR ''-''" m "i @ ''-'' @ c"]
    split_append [of "CHR ''-''" i c] split_no_sep [of "CHR ''-''" c]
  by simp

lemma split_old_format:
  "CHR ''-'' \<notin> set i \<Longrightarrow> split CHR ''-'' (''sk-'' @ i) = [''sk'', i]"
  using split_append [of "CHR ''-''" "''sk''" i] split_no_sep [of "CHR ''-''" i]
  by simp

lemma parseApiKey_new_format:
  assumes "CHR ''-'' \<notin> set m" "CHR ''-'' \<notin> set i" "CHR ''-'' \<notin> set c"
  shows "parseApiKey h (Val (''sk-'' @ m @ ''-'' @ i @ ''-'' @ c)) sec =
     (if c = take 8 (hashHex (h (effectiveSecret sec) (m @ i)))
      then Some \<lparr>machineId = Some m, keyId = i, isNewFormat = True\<rparr> else None)"
  using split_new_format [OF assms]
  by (simp add: parseApiKey_def startsWith_def generateCrc_def)

lemma parseApiKey_old_format:
  assumes "CHR ''-'' \<notin> set i"
  shows "parseApiKey h (Val (''sk-'' @ i)) sec
           = Some \<lparr>machineId = None, keyId = i, isNewFormat = False\<rparr>"
  using split_old_format [OF assms]
  by (simp add: parseApiKey_def startsWith_def)

lemma parseApiKey_null:
  "\<not> startsWith k ''sk-''
     \<or> (length (split CHR ''-'' k) \<noteq> 2 \<and> length (split CHR ''-'' k) \<noteq> 4)
   \<Longrightarrow> parseApiKey h (Val k) sec = None"
  by (auto simp: parseApiKey_def Let_def)

lemma dropWhile_hd: "xs \<noteq> [] \<Longrightarrow> \<not> P (hd xs) \<Longrightarrow> dropWhile P xs = xs"
  by (cases xs) auto

lemma trim_unpadded:
  assumes "s \<noteq> []" "\<not> isWhiteSpace (hd s)" "\<not> isWhiteSpace (last s)"
  shows "trim s = s"
proof -
  have 1: "dropWhile isWhiteSpace s = s" using assms by (simp add: dropWhile_hd)
  have "hd (rev s) = last s" using assms by (simp add: hd_rev)
  then have 2: "dropWhile isWhiteSpace (rev s) = rev s" using assms by (simp add: dropWhile_hd)
  show ?thesis by (simp add: trim_def 1 2)
qed

text \<open>
  C8, as the specification states it, fails on the code where the configured secret has
  white space around it. With the secret \<open>s3cret\<close> followed by a space, the key whose
  checksum is the HMAC under the configured secret (\<open>3cd79558\<close>) is rejected, and the key
  whose checksum is the HMAC under the trimmed secret (\<open>09a2e96b\<close>) is accepted.
\<close>

theorem parseApiKey_claim_counterexample:
  "parseApiKey hmacSample (Val ''sk-m1-k1-3cd79558'') (Val ''s3cret '') = None
   \<and> claimed_crc hmacSample ''m1'' ''k1'' (Val ''s3cret '') = ''3cd79558''
   \<and> parseApiKey hmacSample (Val ''sk-m1-k1-09a2e96b'') (Val ''s3cret '')
        = Some \<lparr>machineId = Some ''m1'', keyId = ''k1'', isNewFormat = True\<rparr>
   \<and> claimed_crc hmacSample ''m1'' ''k1'' (Val ''s3cret '') \<noteq> ''09a2e96b''"
  by code_simp

text \<open>
  C8, amended. For every input string, \<open>parseApiKey\<close> returns null when the string is
  missing or does not start with \<open>sk-\<close> or does not split on \<open>-\<close> into exactly 2 or 4
  parts. For a 4-part
  key \<open>sk-{machineId}-{keyId}-{crc}\<close> it returns \<open>{machineId, keyId, isNewFormat: true}\<close>
  if and only if \<open>crc\<close> is the first 8 hexadecimal characters of the HMAC-SHA256 of
  \<open>machineId + keyId\<close> under the effective secret, and null otherwise. The effective secret
  is the configured secret with the white space at its ends removed, or the legacy default
  when no secret is configured or the configured one is empty or blank; a secret with no
  white space at its ends is used as it is. For every 2-part key \<open>sk-{id}\<close> it returns
  \<open>{machineId: null, keyId: id, isNewFormat: false}\<close>, whatever the HMAC function and the
  secret are: nothing is verified.
\<close>

theorem parseApiKey_amended:
  "parseApiKey h Undefined sec = None \<and> parseApiKey h Null sec = None
   \<and> parseApiKey h (Val []) sec = None
   \<and> (\<not> startsWith k ''sk-''
      \<or> (length (split CHR ''-'' k) \<noteq> 2 \<and> length (split CHR ''-'' k) \<noteq> 4)
      \<longrightarrow> parseApiKey h (Val k) sec = None)
   \<and> (\<forall>m i c. CHR ''-'' \<notin> set m \<and> CHR ''-'' \<notin> set i \<and> CHR ''-'' \<notin> set c \<longrightarrow>
         parseApiKey h (Val (''sk-'' @ m @ ''-'' @ i @ ''-'' @ c)) sec =
           (if c = take 8 (hashHex (h (effectiveSecret sec) (m @ i)))
            then Some \<lparr>machineId = Some m, keyId = i, isNewFormat = True\<rparr> else None))
   \<and> (\<forall>i. CHR ''-'' \<notin> set i \<longrightarrow>
         parseApiKey h (Val (''sk-'' @ i)) sec
           = Some \<lparr>machineId = None, keyId = i, isNewFormat = False\<rparr>)
   \<and> (sec = Undefined \<or> sec = Null \<longrightarrow> effectiveSecret sec = LEGACY_API_KEY_SECRET)
   \<and> (\<forall>s. sec = Val s \<longrightarrow>
         effectiveSecret sec = (if trim s = [] then LEGACY_API_KEY_SECRET else trim s))
   \<and> (\<forall>s. s \<noteq> [] \<and> \<not> isWhiteSpace (hd s) \<and> \<not> isWhiteSpace (last s) \<longrightarrow> trim s = s)"
proof (intro conjI allI impI)
  show "parseApiKey h Undefined sec = None" "parseApiKey h Null sec = None"
    "parseApiKey h (Val []) sec = None"
    by (simp_all add: parseApiKey_def)
next
  assume "\<not> startsWith k ''sk-''
      \<or> (length (split CHR ''-'' k) \<noteq> 2 \<and> length (split CHR ''-'' k) \<noteq> 4)"
  then show "parseApiKey h (Val k) sec = None" by (rule parseApiKey_null)
next
  fix m i c
  assume "CHR ''-'' \<notin> set m \<and> CHR ''-'' \<notin> set i \<and> CHR ''-'' \<notin> set c"
  then have "CHR ''-'' \<notin> set m" "CHR ''-'' \<notin> set i" "CHR ''-'' \<notin> set c"
    by simp_all
  then show "parseApiKey h (Val (''sk-'' @ m @ ''-'' @ i @ ''-'' @ c)) sec =
           (if c = take 8 (hashHex (h (effectiveSecret sec) (m @ i)))
            then Some \<lparr>machineId = Some m, keyId = i, isNewFormat = True\<rparr> else None)"
    by (rule parseApiKey_new_format)
next
  fix i
  assume "CHR ''-'' \<notin> set i"
  then show "parseApiKey h (Val (''sk-'' @ i)) sec
           = Some \<lparr>machineId = None, keyId = i, isNewFormat = False\<rparr>"
    by (rule parseApiKey_old_format)
next
  assume "sec = Undefined \<or> sec = Null"
  then show "effectiveSecret sec = LEGACY_API_KEY_SECRET"
    by (auto simp: effectiveSecret_def)
next
  fix s
  assume "sec = Val s"
  then show "effectiveSecret sec = (if trim s = [] then LEGACY_API_KEY_SECRET else trim s)"
    by (auto simp: effectiveSecret_def trim_def)
next
  fix s
  assume "s \<noteq> [] \<and> \<not> isWhiteSpace (hd s) \<and> \<not> isWhiteSpace (last s)"
  then show "trim s = s" by (simp add: trim_unpadded)
qed

theorem parseApiKey_amended_witness:
  "parseApiKey hmacSample (Val ''sk-m1-k1-4700c456'') Undefined
     = Some \<lparr>machineId = Some ''m1'', keyId = ''k1'', isNewFormat = True\<rparr>
   \<and> parseApiKey hmacSample (Val ''sk-m1-k1-4700c457'') Undefined = None
   \<and> parseApiKey hmacSample (Val ''sk-m1-k1-09a2e96b'') (Val ''s3cret'')
     = Some \<lparr>machineId = Some ''m1'', keyId = ''k1'', isNewFormat = True\<rparr>
   \<and> parseApiKey hmacSample (Val ''sk-abc12345'') (Val ''s3cret'')
     = Some \<lparr>machineId = None, keyId = ''abc12345'', isNewFormat = False\<rparr>
   \<and> parseApiKey hmacSample (Val ''pk-abc12345'') (Val ''s3cret'') = None
   \<and> parseApiKey hmacSample (Val ''sk-a-b'') (Val ''s3cret'') = None"
proof -
  note legacy = parseApiKey_amended [where k = "''sk-a-b''" and h = hmacSample and sec = Undefined]
  note secret = parseApiKey_amended [where k = "''sk-a-b''" and h = hmacSample
      and sec = "Val ''s3cret''"]
  note other = parseApiKey_amended [where k = "''pk-abc12345''" and h = hmacSample
      and sec = "Val ''s3cret''"]
  have e1: "effectiveSecret Undefined = LEGACY_API_KEY_SECRET"
    using legacy by simp
  have e2: "effectiveSecret (Val ''s3cret'') = ''s3cret''"
    using secret by (simp add: isWhiteSpace_def)
  have 1: "parseApiKey hmacSample (Val ''sk-m1-k1-4700c456'') Undefined
     = Some \<lparr>machineId = Some ''m1'', keyId = ''k1'', isNewFormat = True\<rparr>"
    using legacy [THEN conjunct2, THEN conjunct2, THEN conjunct2, THEN conjunct2,
        THEN conjunct1, rule_format, of "''m1''" "''k1''" "''4700c456''"]
    by (simp add: e1 LEGACY_API_KEY_SECRET_def hmacSample_def hashHex_def padStart_def
          hexDigit_def)
  have 2: "parseApiKey hmacSample (Val ''sk-m1-k1-4700c457'') Undefined = None"
    using legacy [THEN conjunct2, THEN conjunct2, THEN conjunct2, THEN conjunct2,
        THEN conjunct1, rule_format, of "''m1''" "''k1''" "''4700c457''"]
    by (simp add: e1 LEGACY_API_KEY_SECRET_def hmacSample_def hashHex_def padStart_def
          hexDigit_def)
  have 3: "parseApiKey hmacSample (Val ''sk-m1-k1-09a2e96b'') (Val ''s3cret'')
     = Some \<lparr>machineId = Some ''m1'', keyId = ''k1'', isNewFormat = True\<rparr>"
    using secret [THEN conjunct2, THEN conjunct2, THEN conjunct2, THEN conjunct2,
        THEN conjunct1, rule_format, of "''m1''" "''k1''" "''09a2e96b''"]
    by (simp add: e2 hmacSample_def hashHex_def padStart_def hexDigit_def)
  have 4: "parseApiKey hmacSample (Val ''sk-abc12345'') (Val ''s3cret'')
     = Some \<lparr>machineId = None, keyId = ''abc12345'', isNewFormat = False\<rparr>"
    using secret [THEN conjunct2, THEN conjunct2, THEN conjunct2, THEN conjunct2,
        THEN conjunct2, THEN conjunct1, rule_format, of "''abc12345''"]
    by simp
  have 5: "parseApiKey hmacSample (Val ''pk-abc12345'') (Val ''s3cret'') = None"
    using other by (simp add: startsWith_def)
  have 6: "parseApiKey hmacSample (Val ''sk-a-b'') (Val ''s3cret'') = None"
    using secret by (simp add: startsWith_def)
  from 1 2 3 4 5 6 show ?thesis by simp
qed

section \<open>Properties of filterAllowedSettings and PATCH\<close>

text \<open>The loop of the filter, for any list of keys and any object it starts from.\<close>

lemma filter_loop:
  "fold (\<lambda>key updates. case body key of None \<Rightarrow> updates | Some v \<Rightarrow> updates(key \<mapsto> v)) keys acc k
     = (if k \<in> set keys then (case body k of None \<Rightarrow> acc k | Some v \<Rightarrow> Some v) else acc k)"
proof (induction keys arbitrary: acc)
  case Nil
  show ?case by simp
next
  case (Cons key keys)
  show ?case by (simp add: Cons.IH split: option.splits)
qed

lemma filterAllowedSettings_lookup:
  "filterAllowedSettings body k = (if k \<in> set ALLOWED_SETTINGS_KEYS then body k else None)"
  by (simp add: filterAllowedSettings_def filter_loop split: option.splits)

lemma dom_filterAllowedSettings:
  "dom (filterAllowedSettings body) \<subseteq> set ALLOWED_SETTINGS_KEYS"
  by (auto simp: filterAllowedSettings_lookup dom_def split: if_splits)

lemma hashAndUpdate_allowed:
  assumes "hashAndUpdate bcrypt_hash body newPassword = UpdateSettings updates"
  shows "dom updates \<subseteq> set ALLOWED_SETTINGS_KEYS"
proof (cases "bcrypt_hash newPassword")
  case None
  with assms show ?thesis by (simp add: hashAndUpdate_def)
next
  case (Some h)
  with assms have "updates = filterAllowedSettings
      (body(''password'' \<mapsto> JStr h, ''newPassword'' := None, ''currentPassword'' := None))"
    by (simp add: hashAndUpdate_def)
  then show ?thesis by (simp add: dom_filterAllowedSettings)
qed

lemma firstPassword_allowed:
  "firstPassword production bcrypt_hash body newPassword = UpdateSettings updates
     \<Longrightarrow> dom updates \<subseteq> set ALLOWED_SETTINGS_KEYS"
  using hashAndUpdate_allowed
  by (auto simp: firstPassword_def split: if_splits)

lemma PATCH_allowed:
  assumes "PATCH production getSettings bcrypt_compare bcrypt_hash request_json
             = UpdateSettings updates"
  shows "dom updates \<subseteq> set ALLOWED_SETTINGS_KEYS"
  using assms dom_filterAllowedSettings [where 'a = json]
  unfolding PATCH_def
  by (auto split: option.splits if_splits
        dest!: hashAndUpdate_allowed firstPassword_allowed)

text \<open>
  C9. For every request body, \<open>filterAllowedSettings\<close> returns an object that holds
  exactly the keys \<open>k\<close> of \<open>ALLOWED_SETTINGS_KEYS\<close> for which \<open>body[k]\<close> is not undefined,
  each with the value of the body. Every key outside the list is absent from the result,
  among them \<open>__proto__\<close>, \<open>constructor\<close> and \<open>prototype\<close>. The updates that \<open>PATCH\<close>
  hands to \<open>updateSettings\<close> have keys of the list only.
\<close>

theorem filterAllowedSettings_spec:
  "(\<forall>k. filterAllowedSettings body k = (if k \<in> set ALLOWED_SETTINGS_KEYS then body k else None))
   \<and> dom (filterAllowedSettings body) = {k. k \<in> set ALLOWED_SETTINGS_KEYS \<and> body k \<noteq> None}
   \<and> (\<forall>k. k \<notin> set ALLOWED_SETTINGS_KEYS \<longrightarrow> filterAllowedSettings body k = None)
   \<and> ''__proto__'' \<notin> set ALLOWED_SETTINGS_KEYS
   \<and> ''constructor'' \<notin> set ALLOWED_SETTINGS_KEYS
   \<and> ''prototype'' \<notin> set ALLOWED_SETTINGS_KEYS
   \<and> (\<forall>updates. PATCH production getSettings bcrypt_compare bcrypt_hash request_json
                    = UpdateSettings updates
          \<longrightarrow> dom updates \<subseteq> set ALLOWED_SETTINGS_KEYS)"
proof (intro conjI allI impI)
  fix k
  show "filterAllowedSettings body k = (if k \<in> set ALLOWED_SETTINGS_KEYS then body k else None)"
    by (rule filterAllowedSettings_lookup)
next
  show "dom (filterAllowedSettings body) = {k. k \<in> set ALLOWED_SETTINGS_KEYS \<and> body k \<noteq> None}"
    by (auto simp: filterAllowedSettings_lookup dom_def split: if_splits)
next
  fix k
  assume "k \<notin> set ALLOWED_SETTINGS_KEYS"
  then show "filterAllowedSettings body k = None"
    by (simp add: filterAllowedSettings_lookup)
next
  show "''__proto__'' \<notin> set ALLOWED_SETTINGS_KEYS"
    by (simp add: ALLOWED_SETTINGS_KEYS_def)
next
  show "''constructor'' \<notin> set ALLOWED_SETTINGS_KEYS"
    by (simp add: ALLOWED_SETTINGS_KEYS_def)
next
  show "''prototype'' \<notin> set ALLOWED_SETTINGS_KEYS"
    by (simp add: ALLOWED_SETTINGS_KEYS_def)
next
  fix updates
  assume "PATCH production getSettings bcrypt_compare bcrypt_hash request_json
            = UpdateSettings updates"
  then show "dom updates \<subseteq> set ALLOWED_SETTINGS_KEYS"
    by (rule PATCH_allowed)
qed

text \<open>
  The witness filters the body of the repository's test, with a field the list does not
  have and a \<open>__proto__\<close> key, and sends a body that sets a first password through
  \<open>PATCH\<close>.
\<close>

theorem filterAllowedSettings_spec_witness:
  "filterAllowedSettings testBody ''requireLogin'' = Some (JBool False)
   \<and> filterAllowedSettings testBody ''cloudUrl'' = Some (JStr ''https://evil.com'')
   \<and> filterAllowedSettings testBody ''cloudEnabled'' = None
   \<and> filterAllowedSettings testBody ''evilKey'' = None
   \<and> filterAllowedSettings testBody ''__proto__'' = None
   \<and> PATCH False (Some Map.empty) (\<lambda>_ _. None) (\<lambda>_. Some ''hashed'')
         (Some (JObj [(''newPassword'', JStr ''pw''), (''evilKey'', JNum 1)]))
       = UpdateSettings [''password'' \<mapsto> JStr ''hashed'']
   \<and> dom [''password'' \<mapsto> JStr ''hashed''] \<subseteq> set ALLOWED_SETTINGS_KEYS"
proof -
  note f = filterAllowedSettings_spec [of testBody False "Some Map.empty" "\<lambda>_ _. None"
      "\<lambda>_. Some ''hashed''" "Some (JObj [(''newPassword'', JStr ''pw''), (''evilKey'', JNum 1)])"]
  note look = f [THEN conjunct1, rule_format]
  have p: "PATCH False (Some Map.empty) (\<lambda>_ _. None) (\<lambda>_. Some ''hashed'')
         (Some (JObj [(''newPassword'', JStr ''pw''), (''evilKey'', JNum 1)]))
       = UpdateSettings [''password'' \<mapsto> JStr ''hashed'']"
    by (auto simp: PATCH_def firstPassword_def hashAndUpdate_def filterAllowedSettings_lookup
          ALLOWED_SETTINGS_KEYS_def)
  have d: "dom [''password'' \<mapsto> JStr ''hashed''] \<subseteq> set ALLOWED_SETTINGS_KEYS"
    using f p by simp
  show ?thesis
    using look [of "''requireLogin''"] look [of "''cloudUrl''"] look [of "''cloudEnabled''"]
      look [of "''evilKey''"] look [of "''__proto__''"] p d
    by (simp add: ALLOWED_SETTINGS_KEYS_def testBody_def)
qed

subsection \<open>The second revision\<close>

text \<open>
  In the second revision the filter has the same property for its shorter list, a
  \<open>password\<close> field of the body is dropped, and the updates that \<open>PATCH\<close> hands to
  \<open>updateSettings\<close> have keys of the list and, after the password flow only, the key
  \<open>password\<close> with the hash the route computed.
\<close>

lemma filterAllowedSettings_rev2_lookup:
  "filterAllowedSettings_rev2 body k
     = (if k \<in> set ALLOWED_SETTINGS_KEYS_rev2 then body k else None)"
  by (simp add: filterAllowedSettings_rev2_def filter_loop split: option.splits)

lemma filterAllowedSettings_rev2_password:
  "filterAllowedSettings_rev2 body ''password'' = None"
  by (simp add: filterAllowedSettings_rev2_lookup ALLOWED_SETTINGS_KEYS_rev2_def)

lemma hashAndUpdate_rev2_allowed:
  assumes "hashAndUpdate_rev2 bcrypt_hash body newPassword = UpdateSettings updates"
  shows "dom updates \<subseteq> insert ''password'' (set ALLOWED_SETTINGS_KEYS_rev2)
         \<and> (\<exists>h. bcrypt_hash newPassword = Some h \<and> updates ''password'' = Some (JStr h))"
proof (cases "bcrypt_hash newPassword")
  case None
  with assms show ?thesis by (simp add: hashAndUpdate_rev2_def)
next
  case (Some h)
  with assms have "updates = (filterAllowedSettings_rev2
      (body(''newPassword'' := None, ''currentPassword'' := None)))(''password'' \<mapsto> JStr h)"
    by (simp add: hashAndUpdate_rev2_def)
  with Some show ?thesis
    by (auto simp: filterAllowedSettings_rev2_lookup dom_def split: if_splits)
qed

lemma PATCH_rev2_allowed:
  assumes "PATCH_rev2 production getSettings bcrypt_compare bcrypt_hash request_json
             = UpdateSettings updates"
  shows "dom updates \<subseteq> insert ''password'' (set ALLOWED_SETTINGS_KEYS_rev2)"
proof -
  have f: "dom (filterAllowedSettings_rev2 body) \<subseteq> insert ''password'' (set ALLOWED_SETTINGS_KEYS_rev2)"
    for body :: "string \<rightharpoonup> json"
    by (auto simp: filterAllowedSettings_rev2_lookup dom_def split: if_splits)
  have h: "dom updates \<subseteq> insert ''password'' (set ALLOWED_SETTINGS_KEYS_rev2)"
    if "hashAndUpdate_rev2 bcrypt_hash body newPassword = UpdateSettings updates" for body newPassword
    using hashAndUpdate_rev2_allowed [OF that] by blast
  have fp: "dom updates \<subseteq> insert ''password'' (set ALLOWED_SETTINGS_KEYS_rev2)"
    if "firstPassword_rev2 production bcrypt_hash body newPassword = UpdateSettings updates"
    for body newPassword
    using that h by (auto simp: firstPassword_rev2_def split: if_splits)
  from assms f show ?thesis
    unfolding PATCH_rev2_def
    by (auto split: option.splits if_splits dest!: h fp)
qed

section \<open>Properties of selection and fallback\<close>

lemma scan_Selected:
  "scan st now p as = Selected i a \<Longrightarrow>
     p \<le> i \<and> i < p + length as \<and> a = as ! (i - p) \<and> \<not> coolingDown (st a) now
     \<and> (\<forall>j. j < i - p \<longrightarrow> coolingDown (st (as ! j)) now)"
proof (induction as arbitrary: p)
  case Nil
  then show ?case by simp
next
  case (Cons x xs)
  show ?case
  proof (cases "coolingDown (st x) now")
    case False
    with Cons.prems show ?thesis by simp
  next
    case True
    with Cons.prems have s: "scan st now (Suc p) xs = Selected i a" by simp
    from Cons.IH [OF s] have ih: "Suc p \<le> i" "i < Suc p + length xs" "a = xs ! (i - Suc p)"
      "\<not> coolingDown (st a) now" "\<forall>j. j < i - Suc p \<longrightarrow> coolingDown (st (xs ! j)) now"
      by blast+
    from ih(1) have e: "i - p = Suc (i - Suc p)" by simp
    have "\<forall>j. j < i - p \<longrightarrow> coolingDown (st ((x # xs) ! j)) now"
    proof (intro allI impI)
      fix j assume "j < i - p"
      then show "coolingDown (st ((x # xs) ! j)) now"
        using True ih(5) e by (cases j) auto
    qed
    with ih e show ?thesis by simp
  qed
qed

lemma scan_Exhausted:
  "scan st now p as = Exhausted \<longleftrightarrow> (\<forall>a \<in> set as. coolingDown (st a) now)"
  by (induction as arbitrary: p) auto

lemma scan_first:
  "as \<noteq> [] \<Longrightarrow> \<not> coolingDown (st (hd as)) now \<Longrightarrow> scan st now p as = Selected p (hd as)"
  by (cases as) auto

lemma selectNext_Selected:
  assumes "selectNext st now combo ctx = Selected i a"
  shows "position ctx \<le> i \<and> i < length combo \<and> a = combo ! i \<and> \<not> coolingDown (st a) now
     \<and> (\<forall>j. position ctx \<le> j \<and> j < i \<longrightarrow> coolingDown (st (combo ! j)) now)"
proof -
  let ?p = "position ctx"
  from assms have s: "scan st now ?p (drop ?p combo) = Selected i a"
    by (simp add: selectNext_def)
  note f = scan_Selected [OF s]
  from f have b: "?p \<le> i" "i < length combo" by auto
  from f b have a: "a = combo ! i" by simp
  have "\<forall>j. ?p \<le> j \<and> j < i \<longrightarrow> coolingDown (st (combo ! j)) now"
  proof (intro allI impI)
    fix j assume j: "?p \<le> j \<and> j < i"
    then have "j - ?p < i - ?p" by arith
    with f have "coolingDown (st (drop ?p combo ! (j - ?p))) now" by blast
    moreover from j b have "drop ?p combo ! (j - ?p) = combo ! j" by simp
    ultimately show "coolingDown (st (combo ! j)) now" by simp
  qed
  with f a b show ?thesis by blast
qed

lemma selectNext_Exhausted:
  "selectNext st now combo ctx = Exhausted
     \<longleftrightarrow> (\<forall>j. position ctx \<le> j \<and> j < length combo \<longrightarrow> coolingDown (st (combo ! j)) now)"
proof -
  have "(\<forall>a \<in> set (drop (position ctx) combo). coolingDown (st a) now)
        \<longleftrightarrow> (\<forall>j. position ctx \<le> j \<and> j < length combo \<longrightarrow> coolingDown (st (combo ! j)) now)"
  proof
    assume h: "\<forall>a \<in> set (drop (position ctx) combo). coolingDown (st a) now"
    show "\<forall>j. position ctx \<le> j \<and> j < length combo \<longrightarrow> coolingDown (st (combo ! j)) now"
    proof (intro allI impI)
      fix j assume j: "position ctx \<le> j \<and> j < length combo"
      then have "combo ! j = drop (position ctx) combo ! (j - position ctx)" by simp
      moreover from j have "j - position ctx < length (drop (position ctx) combo)" by auto
      ultimately have "combo ! j \<in> set (drop (position ctx) combo)"
        using nth_mem by metis
      with h show "coolingDown (st (combo ! j)) now" by blast
    qed
  next
    assume h: "\<forall>j. position ctx \<le> j \<and> j < length combo \<longrightarrow> coolingDown (st (combo ! j)) now"
    show "\<forall>a \<in> set (drop (position ctx) combo). coolingDown (st a) now"
    proof
      fix a assume "a \<in> set (drop (position ctx) combo)"
      then obtain k where k: "k < length (drop (position ctx) combo)"
        "drop (position ctx) combo ! k = a" by (auto simp: in_set_conv_nth)
      then have "a = combo ! (position ctx + k)" "position ctx + k < length combo" by auto
      with h show "coolingDown (st a) now" by auto
    qed
  qed
  then show ?thesis by (simp add: selectNext_def scan_Exhausted)
qed

lemma selectNext_at_position:
  assumes "position ctx < length combo" "\<not> coolingDown (st (combo ! position ctx)) now"
  shows "selectNext st now combo ctx = Selected (position ctx) (combo ! position ctx)"
proof -
  from assms(1) have "drop (position ctx) combo \<noteq> []" by simp
  moreover from assms(1) have "hd (drop (position ctx) combo) = combo ! position ctx"
    by (simp add: hd_drop_conv_nth)
  ultimately show ?thesis using assms(2) scan_first [of "drop (position ctx) combo" st now]
    by (simp add: selectNext_def)
qed

lemma orchestrate_success:
  assumes "selectNext st (clock env (attempt ctx)) combo ctx = Selected i a"
    "\<not> cancelled env (attempt ctx)" "upstream env a (attempt ctx) = Inr r"
  shows "orchestrate env combo st ctx retries refreshed
           = \<lparr>outcome = Completed r, selections = [Selected i a], calls = 1, failures = [],
              finalStore = st\<rparr>"
  using assms by (subst orchestrate.simps) simp

lemma orchestrate_quota:
  assumes "selectNext st (clock env (attempt ctx)) combo ctx = Selected i a"
    "\<not> cancelled env (attempt ctx)" "upstream env a (attempt ctx) = Inl e"
    "classify env e = QuotaExceeded"
  shows "orchestrate env combo st ctx retries refreshed
           = observed (Selected i a) a e
               (orchestrate env combo
                  (setCooldown st a (clock env (attempt ctx) + backoff env (provider (st a))))
                  (ctx\<lparr>errors := (errors ctx)(a \<mapsto> e), attempt := Suc (attempt ctx),
                        position := Suc i\<rparr>) 0 False)"
  using assms by (subst orchestrate.simps) (simp add: Let_def)

lemma orchestrate_exhausted:
  assumes "selectNext st (clock env (attempt ctx)) combo ctx = Exhausted"
  shows "orchestrate env combo st ctx retries refreshed
           = \<lparr>outcome = Failed (ComboExhaustedError (aggregate st ctx combo)),
              selections = [Exhausted], calls = 0, failures = [], finalStore = st\<rparr>"
  using assms by (subst orchestrate.simps) simp

subsection \<open>A chain of quota failures\<close>

lemma quota_chain:
  assumes "position ctx + K < length combo"
    and "distinct (take (Suc K) (drop (position ctx) combo))"
    and "\<forall>j\<le>K. \<not> coolingDown (st (combo ! (position ctx + j))) (clock env (attempt ctx + j))"
    and "\<forall>j<K. \<exists>e. upstream env (combo ! (position ctx + j)) (attempt ctx + j) = Inl e
                    \<and> classify env e = QuotaExceeded"
    and "upstream env (combo ! (position ctx + K)) (attempt ctx + K) = Inr r"
    and "\<forall>j\<le>K. \<not> cancelled env (attempt ctx + j)"
  shows "selections (orchestrate env combo st ctx retries refreshed)
           = map (\<lambda>j. Selected (position ctx + j) (combo ! (position ctx + j))) [0..<Suc K]
         \<and> outcome (orchestrate env combo st ctx retries refreshed) = Completed r
         \<and> calls (orchestrate env combo st ctx retries refreshed) = Suc K"
  using assms
proof (induction K arbitrary: st ctx retries refreshed)
  case 0
  let ?p = "position ctx"
  from 0 have sel: "selectNext st (clock env (attempt ctx)) combo ctx = Selected ?p (combo ! ?p)"
    by (simp add: selectNext_at_position)
  from 0 show ?case
    by (simp add: orchestrate_success [OF sel])
next
  case (Suc K)
  let ?p = "position ctx" and ?n = "attempt ctx"
  let ?a = "combo ! ?p"
  from Suc.prems(1) have pl: "?p < length combo" by simp
  from Suc.prems(3) have nc0: "\<not> coolingDown (st ?a) (clock env ?n)"
    by (metis add.right_neutral le0)
  from pl nc0 have sel: "selectNext st (clock env ?n) combo ctx = Selected ?p ?a"
    by (simp add: selectNext_at_position)
  from Suc.prems(6) have ncan: "\<not> cancelled env ?n"
    by (metis add.right_neutral le0)
  from Suc.prems(4) obtain e where e: "upstream env ?a ?n = Inl e" "classify env e = QuotaExceeded"
    by (metis add.right_neutral zero_less_Suc)
  let ?st = "setCooldown st ?a (clock env ?n + backoff env (provider (st ?a)))"
  let ?ctx = "ctx\<lparr>errors := (errors ctx)(?a \<mapsto> e), attempt := Suc ?n, position := Suc ?p\<rparr>"
  have step: "orchestrate env combo st ctx retries refreshed
                = observed (Selected ?p ?a) ?a e (orchestrate env combo ?st ?ctx 0 False)"
    by (rule orchestrate_quota [OF sel ncan e])
  from pl have dr: "drop ?p combo = ?a # drop (Suc ?p) combo"
    by (simp add: Cons_nth_drop_Suc)
  from Suc.prems(2) dr have notin: "?a \<notin> set (take (Suc K) (drop (Suc ?p) combo))"
    and dist: "distinct (take (Suc K) (drop (Suc ?p) combo))"
    by simp_all
  have same: "?st (combo ! (Suc ?p + j)) = st (combo ! (Suc ?p + j))" if "j \<le> K" for j
  proof -
    from that Suc.prems(1) have "j < length (take (Suc K) (drop (Suc ?p) combo))" by simp
    then have "take (Suc K) (drop (Suc ?p) combo) ! j \<in> set (take (Suc K) (drop (Suc ?p) combo))"
      by (rule nth_mem)
    moreover from that Suc.prems(1)
    have "take (Suc K) (drop (Suc ?p) combo) ! j = combo ! (Suc ?p + j)" by simp
    ultimately have "combo ! (Suc ?p + j) \<noteq> ?a" using notin by metis
    then show ?thesis by (simp add: setCooldown_def)
  qed
  have ih: "selections (orchestrate env combo ?st ?ctx 0 False)
           = map (\<lambda>j. Selected (position ?ctx + j) (combo ! (position ?ctx + j))) [0..<Suc K]
         \<and> outcome (orchestrate env combo ?st ?ctx 0 False) = Completed r
         \<and> calls (orchestrate env combo ?st ?ctx 0 False) = Suc K"
  proof (rule Suc.IH)
    show "position ?ctx + K < length combo" using Suc.prems(1) by simp
    show "distinct (take (Suc K) (drop (position ?ctx) combo))" using dist by simp
    show "\<forall>j\<le>K. \<not> coolingDown (?st (combo ! (position ?ctx + j))) (clock env (attempt ?ctx + j))"
    proof (intro allI impI)
      fix j assume j: "j \<le> K"
      then have "Suc j \<le> Suc K" by simp
      with Suc.prems(3) have "\<not> coolingDown (st (combo ! (?p + Suc j))) (clock env (?n + Suc j))"
        by blast
      with same [OF j] show "\<not> coolingDown (?st (combo ! (position ?ctx + j))) (clock env (attempt ?ctx + j))"
        by simp
    qed
    show "\<forall>j<K. \<exists>e. upstream env (combo ! (position ?ctx + j)) (attempt ?ctx + j) = Inl e
                    \<and> classify env e = QuotaExceeded"
    proof (intro allI impI)
      fix j assume "j < K"
      then have "Suc j < Suc K" by simp
      with Suc.prems(4) have "\<exists>e. upstream env (combo ! (?p + Suc j)) (?n + Suc j) = Inl e
                    \<and> classify env e = QuotaExceeded" by blast
      then show "\<exists>e. upstream env (combo ! (position ?ctx + j)) (attempt ?ctx + j) = Inl e
                    \<and> classify env e = QuotaExceeded" by simp
    qed
    show "upstream env (combo ! (position ?ctx + K)) (attempt ?ctx + K) = Inr r"
      using Suc.prems(5) by simp
    show "\<forall>j\<le>K. \<not> cancelled env (attempt ?ctx + j)"
    proof (intro allI impI)
      fix j assume "j \<le> K"
      then have "Suc j \<le> Suc K" by simp
      with Suc.prems(6) have "\<not> cancelled env (?n + Suc j)" by blast
      then show "\<not> cancelled env (attempt ?ctx + j)" by simp
    qed
  qed
  have m: "map (\<lambda>j. Selected (?p + j) (combo ! (?p + j))) [0..<Suc (Suc K)]
           = Selected ?p ?a # map (\<lambda>j. Selected (Suc ?p + j) (combo ! (Suc ?p + j))) [0..<Suc K]"
    by (subst map_upt_Suc) simp
  from ih show ?case
    by (simp only: step m) (simp add: observed_def)
qed

lemma selectNext_skips_cooled:
  assumes "now < t"
  shows "selectNext (setCooldown st a t) now combo ctx \<noteq> Selected i a"
proof
  assume "selectNext (setCooldown st a t) now combo ctx = Selected i a"
  from selectNext_Selected [OF this] have "\<not> coolingDown (setCooldown st a t a) now" by blast
  with assms show False by (simp add: coolingDown_def setCooldown_def)
qed

text \<open>
  C2, as the specification states it, fails on the model, by the rule that selection skips
  accounts that are cooling down. In a Combo of three accounts whose second account is
  cooling down when the request starts, the first account fails with QuotaExceeded (so
  \<open>K = 1\<close>) and the second result of \<open>selectNext\<close> is the third account, not the second.
  In a Combo of one account that fails with QuotaExceeded (\<open>K = N = 1\<close>) the second result
  is \<open>Exhausted\<close>, not an account. In a Combo that names the failed account twice the
  second result is the third entry. When the second account fails too (with status 400,
  which is not a quota failure, so still \<open>K = 1\<close>), \<open>selectNext\<close> is invoked three times.
\<close>

theorem selectNext_claim_counterexample:
  "upstream scenarioEnv 0 0 = Inl 429
   \<and> classify scenarioEnv 429 = QuotaExceeded
   \<and> selections (orchestrate scenarioEnv [0, 1, 2] (setCooldown fresh 1 2000) start 0 False)
       = [Selected 0 0, Selected 2 2]
   \<and> [0, 1, 2] ! 1 = (1 :: account_id)
   \<and> selections (orchestrate scenarioEnv [0] fresh start 0 False) = [Selected 0 0, Exhausted]
   \<and> selections (orchestrate scenarioEnv [0, 0, 1] fresh start 0 False)
       = [Selected 0 0, Selected 2 1]
   \<and> selections
         (orchestrate (scenarioEnv\<lparr>upstream := \<lambda>a n. if a = 0 then Inl 429 else Inl 400\<rparr>)
            [0, 1] fresh start 0 False)
       = [Selected 0 0, Selected 1 1, Exhausted]"
  by code_simp

text \<open>
  C2, amended. For every Combo, store, time and context, \<open>selectNext\<close> never returns an
  account whose \<open>cooledDownUntil\<close> lies in the future at the moment of selection: the
  account it returns stands in the Combo at the index it returns, at or after the position
  of the context, and is not cooling down; and an account whose cooldown was set to end at
  \<open>t\<close> is returned by no selection before \<open>t\<close>, whatever the Combo and the context are
  (so in later requests too). For every Combo of length \<open>N\<close> and every \<open>K < N\<close>: when the
  first \<open>K + 1\<close> accounts are distinct, none of them is cooling down when its turn comes,
  the first \<open>K\<close> fail with QuotaExceeded, the \<open>(K+1)\<close>-th answers and the caller does not
  cancel, then \<open>selectNext\<close> is invoked exactly \<open>K + 1\<close> times, its \<open>(K+1)\<close>-th result is
  the \<open>(K+1)\<close>-th account of the Combo, and the request completes after \<open>K + 1\<close> network
  calls.
\<close>

theorem selectNext_amended:
  "(\<forall>i a. selectNext st now combo ctx = Selected i a \<longrightarrow>
       position ctx \<le> i \<and> i < length combo \<and> a = combo ! i \<and> \<not> coolingDown (st a) now)
   \<and> (\<forall>b t i. now < t \<longrightarrow> selectNext (setCooldown st b t) now combo ctx \<noteq> Selected i b)
   \<and> (K < length combo \<and> distinct (take (Suc K) combo)
        \<and> (\<forall>j\<le>K. \<not> coolingDown (st (combo ! j)) (clock env j))
        \<and> (\<forall>j<K. \<exists>e. upstream env (combo ! j) j = Inl e \<and> classify env e = QuotaExceeded)
        \<and> upstream env (combo ! K) K = Inr r
        \<and> (\<forall>j\<le>K. \<not> cancelled env j)
      \<longrightarrow> selections (orchestrate env combo st start 0 False)
             = map (\<lambda>j. Selected j (combo ! j)) [0..<Suc K]
          \<and> length (selections (orchestrate env combo st start 0 False)) = Suc K
          \<and> selections (orchestrate env combo st start 0 False) ! K = Selected K (combo ! K)
          \<and> outcome (orchestrate env combo st start 0 False) = Completed r
          \<and> calls (orchestrate env combo st start 0 False) = Suc K)"
proof (intro conjI allI impI)
  fix i a
  assume "selectNext st now combo ctx = Selected i a"
  from selectNext_Selected [OF this]
  show "position ctx \<le> i" "i < length combo" "a = combo ! i" "\<not> coolingDown (st a) now"
    by blast+
next
  fix b t i
  assume "now < t"
  then show "selectNext (setCooldown st b t) now combo ctx \<noteq> Selected i b"
    by (rule selectNext_skips_cooled)
next
  assume h: "K < length combo \<and> distinct (take (Suc K) combo)
        \<and> (\<forall>j\<le>K. \<not> coolingDown (st (combo ! j)) (clock env j))
        \<and> (\<forall>j<K. \<exists>e. upstream env (combo ! j) j = Inl e \<and> classify env e = QuotaExceeded)
        \<and> upstream env (combo ! K) K = Inr r
        \<and> (\<forall>j\<le>K. \<not> cancelled env j)"
  let ?run = "orchestrate env combo st start 0 False"
  from quota_chain [of start K combo st env r 0 False] h
  have chain: "selections ?run = map (\<lambda>j. Selected j (combo ! j)) [0..<Suc K]
         \<and> outcome ?run = Completed r \<and> calls ?run = Suc K"
    by (simp add: start_def)
  then have sel: "selections ?run = map (\<lambda>j. Selected j (combo ! j)) [0..<Suc K]"
    by simp
  show "selections ?run = map (\<lambda>j. Selected j (combo ! j)) [0..<Suc K]" by (rule sel)
  show "length (selections ?run) = Suc K" by (simp add: sel)
  show "selections ?run ! K = Selected K (combo ! K)"
    by (simp only: sel) (simp add: nth_append)
  from chain show "outcome ?run = Completed r" by simp
  from chain show "calls ?run = Suc K" by simp
qed

text \<open>
  The witness is the scenario of section 8: a Combo of two accounts whose first account
  answers 429; and a selection at time 1001 from a store where account 0 cools down until
  1060.
\<close>

theorem selectNext_amended_witness:
  "selections (orchestrate scenarioEnv [0, 1] fresh start 0 False) = [Selected 0 0, Selected 1 1]
   \<and> outcome (orchestrate scenarioEnv [0, 1] fresh start 0 False) = Completed ''response''
   \<and> calls (orchestrate scenarioEnv [0, 1] fresh start 0 False) = 2
   \<and> selectNext (setCooldown fresh 0 1060) 1001 [0, 1] start = Selected 1 1"
proof -
  note t = selectNext_amended [where K = 1 and combo = "[0, 1]" and st = fresh
      and env = scenarioEnv and r = "''response''"]
  have hyp: "1 < length [0::nat, 1] \<and> distinct (take (Suc 1) [0::nat, 1])
        \<and> (\<forall>j\<le>1. \<not> coolingDown (fresh ([0, 1] ! j)) (clock scenarioEnv j))
        \<and> (\<forall>j<1. \<exists>e. upstream scenarioEnv ([0, 1] ! j) j = Inl e
                       \<and> classify scenarioEnv e = QuotaExceeded)
        \<and> upstream scenarioEnv ([0, 1] ! 1) 1 = Inr ''response''
        \<and> (\<forall>j\<le>1. \<not> cancelled scenarioEnv j)"
    by (simp add: scenarioEnv_def fresh_def coolingDown_def le_Suc_eq)
  from t hyp have run: "selections (orchestrate scenarioEnv [0, 1] fresh start 0 False)
             = map (\<lambda>j. Selected j ([0, 1] ! j)) [0..<Suc 1]
          \<and> outcome (orchestrate scenarioEnv [0, 1] fresh start 0 False) = Completed ''response''
          \<and> calls (orchestrate scenarioEnv [0, 1] fresh start 0 False) = Suc 1"
    by blast
  have "selectNext (setCooldown fresh 0 1060) 1001 [0, 1] start = Selected 1 1"
    by (simp add: selectNext_def start_def setCooldown_def fresh_def coolingDown_def)
  with run show ?thesis by (simp add: upt_rec)
qed

subsection \<open>The exhausted Combo\<close>

lemma outcome_observed: "outcome (observed s a e r) = outcome r"
  by (simp add: observed_def)

lemma run_observed:
  "failures (observed s a e r) = (a, e) # failures r"
  "finalStore (observed s a e r) = finalStore r"
  "selections (observed s a e r) = s # selections r"
  "calls (observed s a e r) = Suc (calls r)"
  by (simp_all add: observed_def)

lemma coolingDown_cooldown: "coolingDown acc now \<Longrightarrow> cooldown acc \<noteq> None"
  by (cases "cooldown acc") (simp_all add: coolingDown_def)

lemma lastFailure_iff:
  "lastFailure st ctx a \<noteq> None \<longleftrightarrow> errors ctx a \<noteq> None \<or> cooldown (st a) \<noteq> None"
  by (cases "errors ctx a"; cases "cooldown (st a)") (simp_all add: lastFailure_def)

lemma cooldown_setCooldown: "cooldown (st x) \<noteq> None \<Longrightarrow> cooldown (setCooldown st a t x) \<noteq> None"
  by (simp add: setCooldown_def del: not_None_eq)

lemma accounted_step:
  assumes acc: "accounted st ctx combo"
    and sel: "selectNext st now combo ctx = Selected i a"
    and st': "st' = st \<or> st' = setCooldown st a t"
    and p: "p = i \<or> p = Suc i"
  shows "accounted st' (ctx\<lparr>errors := (errors ctx)(a \<mapsto> e), attempt := n, position := p\<rparr>) combo"
proof -
  note s = selectNext_Selected [OF sel]
  let ?ctx' = "ctx\<lparr>errors := (errors ctx)(a \<mapsto> e), attempt := n, position := p\<rparr>"
  have mono: "lastFailure st ctx x \<noteq> None \<Longrightarrow> lastFailure st' ?ctx' x \<noteq> None" for x
    using st' cooldown_setCooldown [of st x a t]
    by (auto simp: lastFailure_iff simp del: not_None_eq)
  have "lastFailure st' ?ctx' (combo ! j) \<noteq> None" if j: "j < p" for j
  proof -
    from j p s have jl: "j < length combo" by auto
    consider "j < position ctx" | "position ctx \<le> j" "j < i" | "j = i"
      using j p by linarith
    then show ?thesis
    proof cases
      case 1
      with acc jl have "lastFailure st ctx (combo ! j) \<noteq> None"
        by (simp add: accounted_def list_all_length)
      then show ?thesis by (rule mono)
    next
      case 2
      with s have "coolingDown (st (combo ! j)) now" by blast
      then have "lastFailure st ctx (combo ! j) \<noteq> None"
        using coolingDown_cooldown [of "st (combo ! j)" now]
        by (simp add: lastFailure_iff del: not_None_eq)
      then show ?thesis by (rule mono)
    next
      case 3
      with s show ?thesis by (simp add: lastFailure_iff del: not_None_eq)
    qed
  qed
  moreover from p s have "p \<le> length combo" by auto
  ultimately show ?thesis by (simp add: accounted_def list_all_length)
qed

lemma map_filter_total:
  "\<forall>a \<in> set xs. f a \<noteq> None \<Longrightarrow> map fst (List.map_filter (\<lambda>a. map_option (Pair a) (f a)) xs) = xs"
  by (induction xs) auto

lemma aggregate_exhausted:
  assumes acc: "accounted st ctx combo"
    and ex: "selectNext st now combo ctx = Exhausted"
  shows "map fst (aggregate st ctx combo) = remdups combo"
proof -
  have "lastFailure st ctx a \<noteq> None" if "a \<in> set combo" for a
  proof -
    from that obtain j where j: "j < length combo" "combo ! j = a"
      by (auto simp: in_set_conv_nth)
    show ?thesis
    proof (cases "j < position ctx")
      case True
      with acc j show ?thesis by (auto simp: accounted_def list_all_length)
    next
      case False
      with ex j have "coolingDown (st a) now" by (auto simp: selectNext_Exhausted)
      then show ?thesis
        using coolingDown_cooldown [of "st a" now]
        by (simp add: lastFailure_iff del: not_None_eq)
    qed
  qed
  then show ?thesis by (simp add: aggregate_def map_filter_total del: not_None_eq)
qed

lemma orchestrate_entries:
  "accounted st ctx combo \<Longrightarrow>
   outcome (orchestrate env combo st ctx retries refreshed) = Failed (ComboExhaustedError entries)
   \<Longrightarrow> map fst entries = remdups combo"
proof (induction env combo st ctx retries refreshed rule: orchestrate.induct)
  case (1 env combo st ctx retries refreshed)
  note [simp] = outcome_observed run_observed
  let ?now = "clock env (attempt ctx)"
  note out = "1.prems"(2)
  show ?case
  proof (cases "selectNext st ?now combo ctx")
    case Exhausted
    with out have "entries = aggregate st ctx combo"
      by (subst (asm) orchestrate.simps) simp
    with aggregate_exhausted [OF "1.prems"(1) Exhausted] show ?thesis by simp
  next
    case (Selected i a)
    show ?thesis
    proof (cases "cancelled env (attempt ctx)")
      case True
      with out Selected show ?thesis by (subst (asm) orchestrate.simps) simp
    next
      case nc: False
      show ?thesis
      proof (cases "upstream env a (attempt ctx)")
        case (Inr r)
        with out Selected nc show ?thesis by (subst (asm) orchestrate.simps) simp
      next
        case (Inl e)
        let ?failed = "ctx\<lparr>errors := (errors ctx)(a \<mapsto> e), attempt := Suc (attempt ctx)\<rparr>"
        have acc': "accounted st' (?failed\<lparr>position := p\<rparr>) combo"
          if "st' = st \<or> st' = setCooldown st a t" "p = i \<or> p = Suc i" for st' t p
          using accounted_step [OF "1.prems"(1) Selected that] by simp
        note ih = "1.IH" [OF refl Selected nc Inl refl refl refl]
        show ?thesis
        proof (cases "classify env e")
          case Transient
          show ?thesis
          proof (cases "retries < transientCap env")
            case True
            from out Selected nc Inl Transient True
            have "outcome (orchestrate env combo st (?failed\<lparr>position := i\<rparr>) (Suc retries) refreshed)
                    = Failed (ComboExhaustedError entries)"
              by (subst (asm) orchestrate.simps) (simp add: Let_def)
            with ih(1) [OF Transient True] acc' show ?thesis by blast
          next
            case False
            from out Selected nc Inl Transient False
            have "outcome (orchestrate env combo st (?failed\<lparr>position := Suc i\<rparr>) 0 False)
                    = Failed (ComboExhaustedError entries)"
              by (subst (asm) orchestrate.simps) (simp add: Let_def)
            with ih(2) [OF Transient False] acc' show ?thesis by blast
          qed
        next
          case AuthExpired
          show ?thesis
          proof (cases refreshed)
            case False
            from out Selected nc Inl AuthExpired False
            have "outcome (orchestrate env combo st (?failed\<lparr>position := i\<rparr>) retries True)
                    = Failed (ComboExhaustedError entries)"
              by (subst (asm) orchestrate.simps) (simp add: Let_def)
            with ih(3) [OF AuthExpired False] acc' show ?thesis by blast
          next
            case True
            then have nn: "\<not> \<not> refreshed" by simp
            from out Selected nc Inl AuthExpired True
            have "outcome (orchestrate env combo st (?failed\<lparr>position := Suc i\<rparr>) 0 False)
                    = Failed (ComboExhaustedError entries)"
              by (subst (asm) orchestrate.simps) (simp add: Let_def)
            with ih(4) [OF AuthExpired nn] acc' show ?thesis by blast
          qed
        next
          case QuotaExceeded
          from out Selected nc Inl QuotaExceeded
          have "outcome (orchestrate env combo
                  (setCooldown st a (?now + backoff env (provider (st a))))
                  (?failed\<lparr>position := Suc i\<rparr>) 0 False)
                  = Failed (ComboExhaustedError entries)"
            by (subst (asm) orchestrate.simps) (simp add: Let_def)
          with ih(5) [OF QuotaExceeded] acc' show ?thesis by blast
        next
          case Fatal
          from out Selected nc Inl Fatal
          have "outcome (orchestrate env combo st (?failed\<lparr>position := Suc i\<rparr>) 0 False)
                  = Failed (ComboExhaustedError entries)"
            by (subst (asm) orchestrate.simps) (simp add: Let_def)
          with ih(6) [OF Fatal] acc' show ?thesis by blast
        qed
      qed
    qed
  qed
qed

lemma aggregate_errors:
  "errors c1 = errors c2 \<Longrightarrow> aggregate st c1 combo = aggregate st c2 combo"
  by (simp add: aggregate_def lastFailure_def)

lemma lastOf_Cons: "m ++ lastOf ((a, e) # fs) = m(a \<mapsto> e) ++ lastOf fs"
  by (simp add: lastOf_def)

lemma orchestrate_cites_last:
  "outcome (orchestrate env combo st ctx retries refreshed) = Failed (ComboExhaustedError entries)
   \<Longrightarrow> entries = aggregate (finalStore (orchestrate env combo st ctx retries refreshed))
         (ctx\<lparr>errors := errors ctx ++ lastOf (failures (orchestrate env combo st ctx retries refreshed))\<rparr>)
         combo"
proof (induction env combo st ctx retries refreshed rule: orchestrate.induct)
  case (1 env combo st ctx retries refreshed)
  note [simp] = outcome_observed run_observed
  let ?now = "clock env (attempt ctx)"
  let ?run = "orchestrate env combo st ctx retries refreshed"
  note out = "1.prems"
  show ?case
  proof (cases "selectNext st ?now combo ctx")
    case Exhausted
    then show ?thesis using out
      by (simp add: orchestrate_exhausted lastOf_def)
  next
    case (Selected i a)
    show ?thesis
    proof (cases "cancelled env (attempt ctx)")
      case True
      with out Selected show ?thesis by (subst (asm) orchestrate.simps) simp
    next
      case nc: False
      show ?thesis
      proof (cases "upstream env a (attempt ctx)")
        case (Inr r)
        with out Selected nc show ?thesis by (simp add: orchestrate_success)
      next
        case (Inl e)
        let ?failed = "ctx\<lparr>errors := (errors ctx)(a \<mapsto> e), attempt := Suc (attempt ctx)\<rparr>"
        note ih = "1.IH" [OF refl Selected nc Inl refl refl refl]
        have fin: ?thesis
          if step: "?run = observed (Selected i a) a e (orchestrate env combo st' (?failed\<lparr>position := p\<rparr>) k f)"
            and hyp: "outcome (orchestrate env combo st' (?failed\<lparr>position := p\<rparr>) k f)
                        = Failed (ComboExhaustedError entries)
              \<Longrightarrow> entries = aggregate (finalStore (orchestrate env combo st' (?failed\<lparr>position := p\<rparr>) k f))
                    (?failed\<lparr>position := p, errors := errors (?failed\<lparr>position := p\<rparr>)
                         ++ lastOf (failures (orchestrate env combo st' (?failed\<lparr>position := p\<rparr>) k f))\<rparr>)
                    combo"
          for st' p k f
        proof -
          let ?rec = "orchestrate env combo st' (?failed\<lparr>position := p\<rparr>) k f"
          from out step have "outcome ?rec = Failed (ComboExhaustedError entries)" by simp
          from hyp [OF this]
          have "entries = aggregate (finalStore ?rec)
                    (?failed\<lparr>position := p, errors := (errors ctx)(a \<mapsto> e) ++ lastOf (failures ?rec)\<rparr>)
                    combo" by simp
          also have "\<dots> = aggregate (finalStore ?rec)
                 (ctx\<lparr>errors := errors ctx ++ lastOf (failures ?run)\<rparr>) combo"
            by (rule aggregate_errors) (simp add: step lastOf_Cons)
          also have "finalStore ?rec = finalStore ?run"
            by (simp add: step)
          finally show ?thesis .
        qed
        have unfold: "?run = observed (Selected i a) a e
                         (case classify env e of
                            QuotaExceeded \<Rightarrow>
                              orchestrate env combo
                                (setCooldown st a (?now + backoff env (provider (st a))))
                                (?failed\<lparr>position := Suc i\<rparr>) 0 False
                          | Fatal \<Rightarrow> orchestrate env combo st (?failed\<lparr>position := Suc i\<rparr>) 0 False
                          | Transient \<Rightarrow>
                              if retries < transientCap env
                              then orchestrate env combo st (?failed\<lparr>position := i\<rparr>) (Suc retries) refreshed
                              else orchestrate env combo st (?failed\<lparr>position := Suc i\<rparr>) 0 False
                          | AuthExpired \<Rightarrow>
                              if \<not> refreshed
                              then orchestrate env combo st (?failed\<lparr>position := i\<rparr>) retries True
                              else orchestrate env combo st (?failed\<lparr>position := Suc i\<rparr>) 0 False)"
          using Selected nc Inl by (subst orchestrate.simps) (simp add: Let_def)
        show ?thesis
        proof (cases "classify env e")
          case Transient
          show ?thesis
          proof (cases "retries < transientCap env")
            case True
            show ?thesis
              by (rule fin [OF _ ih(1) [OF Transient True]]) (use unfold in \<open>simp_all add: Transient True\<close>)
          next
            case False
            show ?thesis
              by (rule fin [OF _ ih(2) [OF Transient False]]) (use unfold in \<open>simp_all add: Transient False\<close>)
          qed
        next
          case AuthExpired
          show ?thesis
          proof (cases refreshed)
            case False
            show ?thesis
              by (rule fin [OF _ ih(3) [OF AuthExpired False]]) (use unfold in \<open>simp_all add: AuthExpired False\<close>)
          next
            case True
            then have nn: "\<not> \<not> refreshed" by simp
            show ?thesis
              by (rule fin [OF _ ih(4) [OF AuthExpired nn]]) (use unfold in \<open>simp_all add: AuthExpired True\<close>)
          qed
        next
          case QuotaExceeded
          show ?thesis
            by (rule fin [OF _ ih(5) [OF QuotaExceeded]]) (use unfold in \<open>simp_all add: QuotaExceeded\<close>)
        next
          case Fatal
          show ?thesis
            by (rule fin [OF _ ih(6) [OF Fatal]]) (use unfold in \<open>simp_all add: Fatal\<close>)
        qed
      qed
    qed
  qed
qed

lemma map_filter_member:
  "y \<in> set (List.map_filter g xs) \<Longrightarrow> \<exists>x \<in> set xs. g x = Some y"
  by (induction xs) (auto split: option.splits)

lemma aggregate_member:
  "(a, f) \<in> set (aggregate st ctx combo) \<Longrightarrow> lastFailure st ctx a = Some f"
  by (auto simp: aggregate_def dest!: map_filter_member)

text \<open>
  C4. \<open>selectNext\<close> returns \<open>Exhausted\<close> exactly when every account from the position of
  the context on is cooling down (the accounts before it are the exhausted ones). The
  orchestrator then returns a single \<open>ComboExhaustedError\<close> and makes no further network
  call. Whenever a request ends in a \<open>ComboExhaustedError\<close>, the error has exactly one
  entry per account of the Combo, and the entry of an account cites its last failure: the
  error of its last failed call in this request or, for an account that was skipped, the
  failure its cooldown state records. When all accounts are cooling down at the start of
  the request, the request ends in that error with no network call at all.
\<close>

theorem comboExhausted_spec:
  "(selectNext st now combo ctx = Exhausted
      \<longleftrightarrow> (\<forall>j. position ctx \<le> j \<and> j < length combo \<longrightarrow> coolingDown (st (combo ! j)) now))
   \<and> (selectNext st (clock env (attempt ctx)) combo ctx = Exhausted \<longrightarrow>
        orchestrate env combo st ctx retries refreshed
          = \<lparr>outcome = Failed (ComboExhaustedError (aggregate st ctx combo)),
             selections = [Exhausted], calls = 0, failures = [], finalStore = st\<rparr>)
   \<and> (\<forall>entries. outcome (orchestrate env combo st start 0 False)
                    = Failed (ComboExhaustedError entries) \<longrightarrow>
          distinct (map fst entries) \<and> set (map fst entries) = set combo
          \<and> (\<forall>a f. (a, f) \<in> set entries \<longrightarrow>
                (case lastOf (failures (orchestrate env combo st start 0 False)) a of
                   Some e \<Rightarrow> f = Attempted e
                 | None \<Rightarrow> (\<exists>c. cooldown (finalStore (orchestrate env combo st start 0 False) a)
                                  = Some c \<and> f = CooledDown c))))
   \<and> ((\<forall>a \<in> set combo. coolingDown (st a) (clock env 0)) \<longrightarrow>
        outcome (orchestrate env combo st start 0 False)
          = Failed (ComboExhaustedError (aggregate st start combo))
        \<and> calls (orchestrate env combo st start 0 False) = 0
        \<and> map fst (aggregate st start combo) = remdups combo)"
proof (intro conjI allI impI)
  show "selectNext st now combo ctx = Exhausted
      \<longleftrightarrow> (\<forall>j. position ctx \<le> j \<and> j < length combo \<longrightarrow> coolingDown (st (combo ! j)) now)"
    by (rule selectNext_Exhausted)
next
  assume "selectNext st (clock env (attempt ctx)) combo ctx = Exhausted"
  then show "orchestrate env combo st ctx retries refreshed
          = \<lparr>outcome = Failed (ComboExhaustedError (aggregate st ctx combo)),
             selections = [Exhausted], calls = 0, failures = [], finalStore = st\<rparr>"
    by (rule orchestrate_exhausted)
next
  fix entries
  let ?run = "orchestrate env combo st start 0 False"
  assume out: "outcome ?run = Failed (ComboExhaustedError entries)"
  have acc: "accounted st start combo" by (simp add: accounted_def start_def)
  from orchestrate_entries [OF acc out] have m: "map fst entries = remdups combo" .
  from m show "distinct (map fst entries)" by simp
  from m show "set (map fst entries) = set combo" by simp
  fix a f
  assume af: "(a, f) \<in> set entries"
  from orchestrate_cites_last [OF out]
  have "entries = aggregate (finalStore ?run)
          (start\<lparr>errors := errors start ++ lastOf (failures ?run)\<rparr>) combo" .
  with af have "lastFailure (finalStore ?run)
          (start\<lparr>errors := errors start ++ lastOf (failures ?run)\<rparr>) a = Some f"
    by (simp add: aggregate_member)
  then show "case lastOf (failures ?run) a of
                   Some e \<Rightarrow> f = Attempted e
                 | None \<Rightarrow> (\<exists>c. cooldown (finalStore ?run a) = Some c \<and> f = CooledDown c)"
    by (auto simp: lastFailure_def start_def split: option.splits)
next
  let ?run = "orchestrate env combo st start 0 False"
  assume all: "\<forall>a \<in> set combo. coolingDown (st a) (clock env 0)"
  then have ex: "selectNext st (clock env (attempt start)) combo start = Exhausted"
    by (simp add: selectNext_Exhausted start_def)
  from orchestrate_exhausted [OF ex]
  show "outcome ?run = Failed (ComboExhaustedError (aggregate st start combo))"
    and "calls ?run = 0"
    by simp_all
  have acc: "accounted st start combo" by (simp add: accounted_def start_def)
  from aggregate_exhausted [OF acc ex]
  show "map fst (aggregate st start combo) = remdups combo" .
qed

text \<open>
  The witness runs a Combo of three accounts that are all cooling down, and a Combo of one
  account that answers 429.
\<close>

theorem comboExhausted_spec_witness:
  "orchestrate scenarioEnv [0, 1, 2] allCooled start 0 False
     = \<lparr>outcome = Failed (ComboExhaustedError
           [(0, CooledDown \<lparr>cooledDownUntil = 2000, lastErrorClass = QuotaExceeded\<rparr>),
            (1, CooledDown \<lparr>cooledDownUntil = 3000, lastErrorClass = QuotaExceeded\<rparr>),
            (2, CooledDown \<lparr>cooledDownUntil = 4000, lastErrorClass = QuotaExceeded\<rparr>)]),
        selections = [Exhausted], calls = 0, failures = [], finalStore = allCooled\<rparr>
   \<and> outcome (orchestrate scenarioEnv [0] fresh start 0 False)
       = Failed (ComboExhaustedError [(0, Attempted 429)])
   \<and> calls (orchestrate scenarioEnv [0] fresh start 0 False) = 1"
proof -
  note t = comboExhausted_spec [of allCooled "clock scenarioEnv 0" "[0, 1, 2]" start scenarioEnv 0 False]
  have ex: "selectNext allCooled (clock scenarioEnv (attempt start)) [0, 1, 2] start = Exhausted"
    by (simp add: selectNext_def allCooled_def setCooldown_def fresh_def coolingDown_def
          scenarioEnv_def start_def)
  have agg: "aggregate allCooled start [0, 1, 2]
         = [(0, CooledDown \<lparr>cooledDownUntil = 2000, lastErrorClass = QuotaExceeded\<rparr>),
            (1, CooledDown \<lparr>cooledDownUntil = 3000, lastErrorClass = QuotaExceeded\<rparr>),
            (2, CooledDown \<lparr>cooledDownUntil = 4000, lastErrorClass = QuotaExceeded\<rparr>)]"
    by (simp add: aggregate_def lastFailure_def allCooled_def setCooldown_def fresh_def start_def
          List.map_filter_simps)
  have 1: "orchestrate scenarioEnv [0, 1, 2] allCooled start 0 False
     = \<lparr>outcome = Failed (ComboExhaustedError (aggregate allCooled start [0, 1, 2])),
        selections = [Exhausted], calls = 0, failures = [], finalStore = allCooled\<rparr>"
    by (rule t [THEN conjunct2, THEN conjunct1, rule_format, OF ex])
  have 2: "outcome (orchestrate scenarioEnv [0] fresh start 0 False)
       = Failed (ComboExhaustedError [(0, Attempted 429)])
     \<and> calls (orchestrate scenarioEnv [0] fresh start 0 False) = 1"
    by code_simp
  from 1 agg 2 show ?thesis by simp
qed

section \<open>Properties of the Streaming Controller\<close>

lemma truncated_loop:
  "EndOfStream \<notin> snd ` set events \<Longrightarrow>
     status (streamLoop m reshape tokensOf now tel events) = StreamTruncatedError
     \<and> frames (streamLoop m reshape tokensOf now tel events)
         = map (emit m reshape) (contentFrames events)
     \<and> timeOfLastByte (telemetry (streamLoop m reshape tokensOf now tel events))
         = timeOfLastByte tel"
proof (induction events arbitrary: now tel)
  case Nil
  show ?case by simp
next
  case (Cons ev events)
  obtain d e where ev: "ev = (d, e)" by (cases ev)
  with Cons.prems obtain f where e: "e = Frame f" by (cases e) auto
  from Cons.prems have "EndOfStream \<notin> snd ` set events" by auto
  from Cons.IH [OF this] show ?case
    by (simp add: ev e Let_def firstByte_def split: option.splits)
qed

lemma completed_loop:
  "EndOfStream \<in> snd ` set events \<Longrightarrow>
     status (streamLoop m reshape tokensOf now tel events) = StreamCompleted"
proof (induction events arbitrary: now tel)
  case Nil
  then show ?case by simp
next
  case (Cons ev events)
  obtain d e where ev: "ev = (d, e)" by (cases ev)
  show ?case
  proof (cases e)
    case EndOfStream
    with ev show ?thesis by (simp add: Let_def)
  next
    case (Frame f)
    with ev Cons.prems have "EndOfStream \<in> snd ` set events" by auto
    from Cons.IH [OF this] show ?thesis by (simp add: ev Frame Let_def)
  qed
qed

text \<open>
  C3. For every streaming execution in which the upstream connection closes without an
  explicit end-of-stream marker, in either mode, the controller ends in
  \<open>StreamTruncatedError\<close>, never in a completion, also when content frames were already
  emitted to the caller (all the content frames of the stream were); no time-of-last-byte
  is recorded. The stream completes exactly when the marker arrives.
\<close>

theorem streamTruncated_spec:
  "(EndOfStream \<notin> snd ` set events \<longrightarrow>
      status (runStream m reshape tokensOf startedAt events) = StreamTruncatedError
      \<and> frames (runStream m reshape tokensOf startedAt events)
          = map (emit m reshape) (contentFrames events)
      \<and> timeOfLastByte (telemetry (runStream m reshape tokensOf startedAt events)) = None)
   \<and> (status (runStream m reshape tokensOf startedAt events) = StreamCompleted
        \<longleftrightarrow> EndOfStream \<in> snd ` set events)"
proof (intro conjI impI)
  assume h: "EndOfStream \<notin> snd ` set events"
  note t = truncated_loop [OF h, of m reshape tokensOf startedAt
      "\<lparr>requestStart = startedAt, timeToFirstByte = None, timeOfLastByte = None,
        chunkCount = 0, emittedTokens = 0\<rparr>"]
  from t show "status (runStream m reshape tokensOf startedAt events) = StreamTruncatedError"
    by (simp add: runStream_def)
  from t show "frames (runStream m reshape tokensOf startedAt events)
          = map (emit m reshape) (contentFrames events)"
    by (simp add: runStream_def)
  from t show "timeOfLastByte (telemetry (runStream m reshape tokensOf startedAt events)) = None"
    by (simp add: runStream_def)
next
  show "status (runStream m reshape tokensOf startedAt events) = StreamCompleted
        \<longleftrightarrow> EndOfStream \<in> snd ` set events"
  proof (cases "EndOfStream \<in> snd ` set events")
    case True
    then show ?thesis by (simp add: runStream_def completed_loop)
  next
    case False
    then show ?thesis by (simp add: runStream_def truncated_loop)
  qed
qed

text \<open>
  The witness is the scenario of section 8: three content frames, then the connection
  closes; and a stream whose marker arrives after one frame.
\<close>

theorem streamTruncated_spec_witness:
  "runStream Passthrough id length 100 [(10, Frame ''a''), (10, Frame ''bc''), (10, Frame ''d'')]
     = \<lparr>frames = [''a'', ''bc'', ''d''], status = StreamTruncatedError,
        telemetry = \<lparr>requestStart = 100, timeToFirstByte = Some 110, timeOfLastByte = None,
                     chunkCount = 3, emittedTokens = 4\<rparr>\<rparr>
   \<and> status (runStream Passthrough id length 100
        [(10, Frame ''a''), (10, Frame ''bc''), (10, Frame ''d'')]) = StreamTruncatedError
   \<and> status (runStream Translate rev length 100
        [(10, Frame ''a''), (10, EndOfStream), (10, Frame ''d'')]) = StreamCompleted"
proof -
  note t1 = streamTruncated_spec [of "[(10, Frame ''a''), (10, Frame ''bc''), (10, Frame ''d'')]"
      Passthrough id length 100]
  note t2 = streamTruncated_spec [of "[(10, Frame ''a''), (10, EndOfStream), (10, Frame ''d'')]"
      Translate rev length 100]
  have 1: "runStream Passthrough id length 100 [(10, Frame ''a''), (10, Frame ''bc''), (10, Frame ''d'')]
     = \<lparr>frames = [''a'', ''bc'', ''d''], status = StreamTruncatedError,
        telemetry = \<lparr>requestStart = 100, timeToFirstByte = Some 110, timeOfLastByte = None,
                     chunkCount = 3, emittedTokens = 4\<rparr>\<rparr>"
    by (simp add: runStream_def firstByte_def emit_def)
  from t1 have 2: "status (runStream Passthrough id length 100
        [(10, Frame ''a''), (10, Frame ''bc''), (10, Frame ''d'')]) = StreamTruncatedError"
    by simp
  from t2 have 3: "status (runStream Translate rev length 100
        [(10, Frame ''a''), (10, EndOfStream), (10, Frame ''d'')]) = StreamCompleted"
    by simp
  from 1 2 3 show ?thesis by blast
qed

lemma firstByte_le:
  assumes "\<forall>a. timeToFirstByte tel = Some a \<longrightarrow> a \<le> now" "now \<le> t"
  shows "\<forall>a. timeToFirstByte (firstByte t tel) = Some a \<longrightarrow> a \<le> t"
  using assms by (auto simp: firstByte_def split: option.splits)

lemma firstByte_ge:
  assumes "\<forall>a. timeToFirstByte tel = Some a \<longrightarrow> requestStart tel \<le> a" "requestStart tel \<le> t"
  shows "\<forall>a. timeToFirstByte (firstByte t tel) = Some a \<longrightarrow> requestStart tel \<le> a"
  using assms by (auto simp: firstByte_def split: option.splits)

lemma firstByte_fields:
  "requestStart (firstByte t tel) = requestStart tel"
  "timeOfLastByte (firstByte t tel) = timeOfLastByte tel"
  by (simp_all add: firstByte_def split: option.splits)

lemma ordered_loop:
  "\<forall>x. timeToFirstByte tel = Some x \<longrightarrow> requestStart tel \<le> x \<and> x \<le> now \<Longrightarrow>
   requestStart tel \<le> now \<Longrightarrow>
   timeOfLastByte tel = None \<Longrightarrow>
   timeToFirstByte (telemetry (streamLoop m reshape tokensOf now tel events)) = Some a \<Longrightarrow>
   timeOfLastByte (telemetry (streamLoop m reshape tokensOf now tel events)) = Some b \<Longrightarrow>
   requestStart tel \<le> a \<and> a \<le> b"
proof (induction events arbitrary: now tel)
  case Nil
  then show ?case by simp
next
  case (Cons ev events)
  note [simp] = firstByte_fields
  obtain d e where ev: "ev = (d, e)" by (cases ev)
  let ?t = "now + d"
  from Cons.prems(1) have le: "\<forall>x. timeToFirstByte tel = Some x \<longrightarrow> x \<le> now"
    and ge: "\<forall>x. timeToFirstByte tel = Some x \<longrightarrow> requestStart tel \<le> x" by simp_all
  have nt: "now \<le> ?t" by simp
  from Cons.prems(2) have rt: "requestStart tel \<le> ?t" by simp
  note fle = firstByte_le [OF le nt] and fge = firstByte_ge [OF ge rt]
  show ?case
  proof (cases e)
    case EndOfStream
    with ev Cons.prems(4,5) fle fge show ?thesis by (simp add: Let_def)
  next
    case (Frame f)
    let ?tel = "(firstByte ?t tel)\<lparr>chunkCount := Suc (chunkCount tel),
        emittedTokens := emittedTokens tel + tokensOf (emit m reshape f)\<rparr>"
    have 1: "\<forall>x. timeToFirstByte ?tel = Some x \<longrightarrow> requestStart ?tel \<le> x \<and> x \<le> ?t"
      using fle fge by simp
    have 2: "requestStart ?tel \<le> ?t" using rt by simp
    have 3: "timeOfLastByte ?tel = None" using Cons.prems(3) by simp
    from Cons.prems(4,5) ev Frame
    have 4: "timeToFirstByte (telemetry (streamLoop m reshape tokensOf ?t ?tel events)) = Some a"
      and 5: "timeOfLastByte (telemetry (streamLoop m reshape tokensOf ?t ?tel events)) = Some b"
      by (simp_all add: Let_def)
    from Cons.IH [OF 1 2 3 4 5] show ?thesis by simp
  qed
qed

text \<open>
  C5. For every StreamTelemetry the controller produces, completed or truncated, in which
  both time-to-first-byte and time-of-last-byte are set, time-of-last-byte is at least
  time-to-first-byte.
\<close>

theorem streamTelemetry_ordered:
  "\<forall>a b. timeToFirstByte (telemetry (runStream m reshape tokensOf startedAt events)) = Some a
         \<and> timeOfLastByte (telemetry (runStream m reshape tokensOf startedAt events)) = Some b
      \<longrightarrow> a \<le> b"
proof (intro allI impI)
  fix a b
  let ?tel = "\<lparr>requestStart = startedAt, timeToFirstByte = None, timeOfLastByte = None,
        chunkCount = 0, emittedTokens = 0\<rparr>"
  assume h: "timeToFirstByte (telemetry (runStream m reshape tokensOf startedAt events)) = Some a
         \<and> timeOfLastByte (telemetry (runStream m reshape tokensOf startedAt events)) = Some b"
  then have 4: "timeToFirstByte (telemetry (streamLoop m reshape tokensOf startedAt ?tel events)) = Some a"
    and 5: "timeOfLastByte (telemetry (streamLoop m reshape tokensOf startedAt ?tel events)) = Some b"
    by (simp_all add: runStream_def)
  have "requestStart ?tel \<le> a \<and> a \<le> b"
    by (rule ordered_loop [OF _ _ _ 4 5]) simp_all
  then show "a \<le> b" by simp
qed

text \<open>
  The witness is a stream of two frames and the marker: first byte at 110, last byte at
  135.
\<close>

theorem streamTelemetry_ordered_witness:
  "timeToFirstByte (telemetry (runStream Passthrough id length 100
       [(10, Frame ''a''), (25, Frame ''bc''), (0, EndOfStream)])) = Some 110
   \<and> timeOfLastByte (telemetry (runStream Passthrough id length 100
       [(10, Frame ''a''), (25, Frame ''bc''), (0, EndOfStream)])) = Some 135
   \<and> (110 :: nat) \<le> 135"
proof -
  have 1: "timeToFirstByte (telemetry (runStream Passthrough id length 100
       [(10, Frame ''a''), (25, Frame ''bc''), (0, EndOfStream)])) = Some 110"
    and 2: "timeOfLastByte (telemetry (runStream Passthrough id length 100
       [(10, Frame ''a''), (25, Frame ''bc''), (0, EndOfStream)])) = Some 135"
    by (simp_all add: runStream_def firstByte_def emit_def)
  from streamTelemetry_ordered [of Passthrough id length 100
       "[(10, Frame ''a''), (25, Frame ''bc''), (0, EndOfStream)]", rule_format, of 110 135] 1 2
  show ?thesis by simp
qed

end
